theory Spec2Isabelle
  imports Main
begin

section \<open>JavaScript strings and thrown values\<close>

text \<open>
  A JavaScript string is modelled as a \<^typ>\<open>string\<close>, one \<^typ>\<open>char\<close> per code unit
  (code units below 256). \<open>startsWith\<close> is \<open>String.prototype.startsWith\<close> and
  \<open>includes_str\<close> is \<open>String.prototype.includes\<close> (a substring test).
\<close>

primrec startsWith :: "string \<Rightarrow> string \<Rightarrow> bool" where
  "startsWith s [] = True"
| "startsWith s (p # ps) = (case s of [] \<Rightarrow> False | c # cs \<Rightarrow> c = p \<and> startsWith cs ps)"

fun includes_str :: "string \<Rightarrow> string \<Rightarrow> bool" where
  "includes_str [] p = startsWith [] p"
| "includes_str (c # cs) p = (startsWith (c # cs) p \<or> includes_str cs p)"

text \<open>
  What a \<open>catch\<close> clause receives: an \<open>Error\<close> object with its \<open>message\<close>, or any
  other value, kept as the two texts the code reads from it, \<open>JSON.stringify(v)\<close> and
  \<open>String(v)\<close>. Values for which \<open>JSON.stringify\<close> gives no text (\<open>undefined\<close>, a
  function) are left out: the SDK and \<open>fetch\<close> reject with \<open>Error\<close> objects.
\<close>

datatype thrown = JsError string | JsValue string string

text \<open>\<open>error instanceof Error ? error.message : JSON.stringify(error)\<close>\<close>

fun message_or_json :: "thrown \<Rightarrow> string" where
  "message_or_json (JsError m) = m"
| "message_or_json (JsValue j s) = j"

text \<open>\<open>error instanceof Error ? error.message : String(error)\<close>\<close>

fun message_or_String :: "thrown \<Rightarrow> string" where
  "message_or_String (JsError m) = m"
| "message_or_String (JsValue j s) = s"

section \<open>The upstream image-generation client\<close>

text \<open>
  A request is the list of parts handed to \<open>generateContent\<close>: inline image data
  (\<open>mimeType\<close>, \<open>data\<close>) or a text. A response has candidates, each with an optional
  content holding optional parts; a part of a response may carry \<open>inlineData\<close> (whose
  \<open>mimeType\<close> and \<open>data\<close> may be missing) and may carry a text. \<open>response_text\<close> is the
  SDK's \<open>response.text\<close>, \<open>response_response_candidates\<close> is
  \<open>response.response?.candidates\<close> and \<open>content_json\<close> is the text \<open>JSON.stringify\<close> gives
  for the content; \<open>None\<close> stands for \<open>undefined\<close>.
\<close>

datatype req_part = InlineDataPart string string | TextPart string

record inline_data =
  mimeType :: "string option"
  data :: "string option"

record part =
  inlineData :: "inline_data option"
  part_text :: "string option"

record content =
  parts :: "part list option"
  content_json :: string

record candidate =
  candidate_content :: "content option"

record response =
  candidates :: "candidate list option"
  response_response_candidates :: "candidate list option"
  response_text :: "string option"

text \<open>
  The upstream service is any deterministic function of the requests it has already
  received and the current request; it returns a response or throws.
\<close>

type_synonym upstream = "req_part list list \<Rightarrow> req_part list \<Rightarrow> thrown + response"

section \<open>The HTTP boundary and the world\<close>

text \<open>
  A request to \<open>/api/generate\<close> with its JSON body \<open>{images, prompt}\<close>, and a response
  with its status and what \<open>response.json()\<close> settles to: the parsed body, whose fields
  may be missing, or the error thrown for a body that is not JSON.
\<close>

datatype http_method = POST | OPTIONS | OTHER_METHOD

record http_request =
  req_method :: http_method
  req_images :: "string list"
  req_prompt :: string

record api_body =
  body_success :: "bool option"
  body_imageUrl :: "string option"
  body_message :: "string option"
  body_error :: "string option"

record http_response =
  status_code :: nat
  json :: "thrown + api_body"

text \<open>
  The effects on the world: the log of requests sent with \<open>fetch\<close>, the log of upstream
  requests issued, in order, and the log of delays waited with \<open>setTimeout\<close>.
\<close>

record world =
  fetches :: "http_request list"
  calls :: "req_part list list"
  waits :: "nat list"

section \<open>The retrying call wrapper\<close>

definition maxRetries :: nat where
  "maxRetries = 3"

definition initialDelay :: nat where
  "initialDelay = 1000"

definition isInternalError :: "thrown \<Rightarrow> bool" where
  \<open>isInternalError error =
     (let errorMessage = message_or_json error
      in includes_str errorMessage ''"code":500'' \<or> includes_str errorMessage ''INTERNAL'')\<close>

text \<open>
  The \<open>for\<close> loop of \<open>callGeminiWithRetry\<close>, from a given value of \<open>attempt\<close>. Each
  iteration issues one upstream call; the statement after the loop throws.
\<close>

function callGeminiWithRetry_from ::
  "upstream \<Rightarrow> req_part list \<Rightarrow> nat \<Rightarrow> world \<Rightarrow> (thrown + response) \<times> world" where
  "callGeminiWithRetry_from up ps attempt w =
     (if attempt \<le> maxRetries then
        (let w1 = w\<lparr>calls := calls w @ [ps]\<rparr> in
         case up (calls w) ps of
           Inr resp \<Rightarrow> (Inr resp, w1)
         | Inl error \<Rightarrow>
             if isInternalError error \<and> attempt < maxRetries then
               (let delay = initialDelay * 2 ^ (attempt - 1)
                in callGeminiWithRetry_from up ps (attempt + 1) (w1\<lparr>waits := waits w1 @ [delay]\<rparr>))
             else (Inl error, w1))
      else (Inl (JsError ''Gemini API call failed after all retries.''), w))"
  by pat_completeness auto
termination
  by (relation "measure (\<lambda>(up, ps, attempt, w). Suc maxRetries - attempt)") auto

declare callGeminiWithRetry_from.simps [simp del]

definition callGeminiWithRetry ::
  "upstream \<Rightarrow> req_part list \<Rightarrow> world \<Rightarrow> (thrown + response) \<times> world" where
  "callGeminiWithRetry up ps w = callGeminiWithRetry_from up ps 1 w"

section \<open>The response interpreter\<close>

text \<open>\<open>cs?.[0]\<close>, \<open>c?.content?.parts\<close>, a template hole \<open>${v}\<close> (which prints a missing
  value as \<open>undefined\<close>), and \<open>v || d\<close> on a string that may be missing or empty.\<close>

definition first_candidate :: "candidate list option \<Rightarrow> candidate option" where
  "first_candidate cs = (case cs of None \<Rightarrow> None | Some [] \<Rightarrow> None | Some (c # rest) \<Rightarrow> Some c)"

definition candidate_parts :: "candidate option \<Rightarrow> part list option" where
  "candidate_parts c =
     (case c of None \<Rightarrow> None
      | Some c' \<Rightarrow> (case candidate_content c' of None \<Rightarrow> None | Some ct \<Rightarrow> parts ct))"

definition template :: "string option \<Rightarrow> string" where
  "template v = (case v of None \<Rightarrow> ''undefined'' | Some s \<Rightarrow> s)"

definition or_else :: "string option \<Rightarrow> string option \<Rightarrow> string option" where
  "or_else v d = (case v of None \<Rightarrow> d | Some s \<Rightarrow> if s = [] then d else Some s)"

definition NO_IMAGE_MARKER :: string where
  "NO_IMAGE_MARKER = ''The AI model responded with text instead of an image''"

text \<open>\<open>processGeminiResponse\<close> of the Vercel handler.\<close>

definition processGeminiResponse_vercel :: "response \<Rightarrow> thrown + string" where
  \<open>processGeminiResponse_vercel response =
     (let imagePartFromResponse =
            (case candidate_parts (first_candidate (candidates response)) of
               None \<Rightarrow> None
             | Some ps \<Rightarrow> List.find (\<lambda>p. inlineData p \<noteq> None) ps)
      in case (case imagePartFromResponse of None \<Rightarrow> None | Some p \<Rightarrow> inlineData p) of
           Some d \<Rightarrow> Inr (''data:'' @ template (mimeType d) @ '';base64,'' @ template (data d))
         | None \<Rightarrow>
             (let textResponse = response_text response
              in Inl (JsError (''The AI model responded with text instead of an image: "''
                    @ template (or_else textResponse (Some ''No text response received.''))
                    @ ''"''))))\<close>

text \<open>
  \<open>processGeminiResponse\<close> of the Netlify handler. The \<open>for\<close> loop over the parts
  returns or throws at the first part that has \<open>inlineData\<close>.
\<close>

fun first_inline_part :: "part list \<Rightarrow> (thrown + string) option" where
  "first_inline_part [] = None"
| "first_inline_part (p # ps) =
     (case inlineData p of
        Some d \<Rightarrow>
          (if data d = None \<or> data d = Some [] then Some (Inl (JsError ''Image data is empty''))
           else Some (Inr (''data:'' @ template (mimeType d) @ '';base64,'' @ template (data d))))
      | None \<Rightarrow> first_inline_part ps)"

definition processGeminiResponse_netlify :: "response \<Rightarrow> thrown + string" where
  \<open>processGeminiResponse_netlify response =
     (let cands = (case candidates response of Some cs \<Rightarrow> Some cs
                   | None \<Rightarrow> response_response_candidates response);
          firstCandidate = first_candidate cands;
          ps = candidate_parts firstCandidate
      in case (case ps of None \<Rightarrow> None | Some [] \<Rightarrow> None | Some (p # rest) \<Rightarrow> first_inline_part (p # rest)) of
           Some result \<Rightarrow> result
         | None \<Rightarrow>
             (let found = (case ps of None \<Rightarrow> None
                           | Some ps' \<Rightarrow> List.find (\<lambda>p. or_else (part_text p) None \<noteq> None) ps');
                  stringified = (case firstCandidate of None \<Rightarrow> None
                                 | Some c \<Rightarrow> map_option content_json (candidate_content c));
                  textResponse =
                    or_else (or_else (case found of None \<Rightarrow> None | Some p \<Rightarrow> part_text p)
                                     (response_text response)) stringified
              in Inl (JsError (''The AI model did not generate an image. Response: "''
                    @ template (or_else textResponse (Some ''No valid response received.''))
                    @ ''"''))))\<close>

section \<open>Prompts and style extraction\<close>

definition STYLES :: "string list" where
  "STYLES = [''Modern'', ''Scandinavian'', ''Industrial'', ''Bohemian'', ''Farmhouse'', ''Minimalist'']"

text \<open>The instruction text built in \<open>processStyle\<close> and in \<open>handleRegenerateStyle\<close>.\<close>

definition style_prompt :: "string \<Rightarrow> string" where
  "style_prompt style =
     ''Using the provided image(s) of a room or home exterior, generate a photorealistic remodeled version in a ''
     @ style
     @ '' design style. The new design should be a plausible renovation of the original space, keeping the core structure (windows, doors) in the same location but changing walls, floors, furniture, lighting, and decor to fit the new aesthetic. The output must be a high-quality, photorealistic image.''"

definition getFallbackPrompt :: "string \<Rightarrow> string" where
  "getFallbackPrompt style =
     ''Create a photorealistic image showing a remodeled version of the room in this photo in the ''
     @ style @ '' style. Focus on changing the furniture, wall color, and decor.''"

text \<open>
  \<open>extractStyle\<close>: the regular expression
  \<open>/in a (Modern|Scandinavian|Industrial|Bohemian|Farmhouse|Minimalist) design style/\<close> is
  searched from the left; at each position the alternatives are tried in their order.
\<close>

definition style_at :: "string \<Rightarrow> string option" where
  "style_at s =
     List.find (\<lambda>style. startsWith s (''in a '' @ style @ '' design style''))
       [''Modern'', ''Scandinavian'', ''Industrial'', ''Bohemian'', ''Farmhouse'', ''Minimalist'']"

fun extractStyle :: "string \<Rightarrow> string option" where
  "extractStyle [] = None"
| "extractStyle (c # cs) =
     (case style_at (c # cs) of Some style \<Rightarrow> Some style | None \<Rightarrow> extractStyle cs)"

section \<open>Image data URLs\<close>

text \<open>
  The character classes of the regular expression \<open>/^data:(image\/\w+);base64,(.*)$/\<close>:
  \<open>\w\<close> is a letter, a digit or the underscore, and \<open>.\<close> is any character but a line
  terminator. The match, when there is one, is unique: \<open>\w+\<close> takes every word character
  after \<open>data:image/\<close>, since the next character has to be the semicolon.
\<close>

definition is_word :: "char \<Rightarrow> bool" where
  "is_word c = (c \<in> set ''abcdefghijklmnopqrstuvwxyzABCDEFGHIJKLMNOPQRSTUVWXYZ0123456789_'')"

definition is_line_terminator :: "char \<Rightarrow> bool" where
  "is_line_terminator c = (c = CHR 0x0A \<or> c = CHR 0x0D)"

definition match_data_url :: "string \<Rightarrow> (string \<times> string) option" where
  "match_data_url url =
     (if startsWith url ''data:image/'' then
        (let rest = drop 11 url;
             w = takeWhile is_word rest;
             after = dropWhile is_word rest
         in if w \<noteq> [] \<and> startsWith after '';base64,''
               \<and> list_all (\<lambda>c. \<not> is_line_terminator c) (drop 8 after)
            then Some (''image/'' @ w, drop 8 after)
            else None)
      else None)"

section \<open>The backend's generateStyleImage\<close>

definition INVALID_FORMAT_MESSAGE :: string where
  "INVALID_FORMAT_MESSAGE =
     ''Invalid image data URL format. Expected 'data:image/...;base64,...'' @ [CHR 0x27]"

text \<open>\<open>imageDataUrls.map(...)\<close>: the callback throws at the first URL that does not match.\<close>

fun imageParts :: "string list \<Rightarrow> thrown + req_part list" where
  "imageParts [] = Inr []"
| "imageParts (url # urls) =
     (case match_data_url url of
        None \<Rightarrow> Inl (JsError INVALID_FORMAT_MESSAGE)
      | Some (mt, base64Data) \<Rightarrow>
          (case imageParts urls of
             Inl e \<Rightarrow> Inl e
           | Inr ps \<Rightarrow> Inr (InlineDataPart mt base64Data # ps)))"

text \<open>The body of each \<open>try\<close> block: the retrying call, then the interpreter.\<close>

definition call_then_interpret ::
  "(response \<Rightarrow> thrown + string) \<Rightarrow> upstream \<Rightarrow> req_part list \<Rightarrow> world
     \<Rightarrow> (thrown + string) \<times> world" where
  "call_then_interpret interp up ps w =
     (case callGeminiWithRetry up ps w of
        (Inl e, w') \<Rightarrow> (Inl e, w')
      | (Inr resp, w') \<Rightarrow> (interp resp, w'))"

text \<open>
  \<open>generateStyleImage\<close> of the serverless function; \<open>interp\<close> is the handler's
  \<open>processGeminiResponse\<close>.
\<close>

definition generateStyleImage_api ::
  "(response \<Rightarrow> thrown + string) \<Rightarrow> upstream \<Rightarrow> string list \<Rightarrow> string \<Rightarrow> world
     \<Rightarrow> (thrown + string) \<times> world" where
  "generateStyleImage_api interp up imageDataUrls prompt w =
     (case imageParts imageDataUrls of
        Inl e \<Rightarrow> (Inl e, w)
      | Inr ips \<Rightarrow>
          (case call_then_interpret interp up (ips @ [TextPart prompt]) w of
             (Inr url, w1) \<Rightarrow> (Inr url, w1)
           | (Inl error, w1) \<Rightarrow>
               (let errorMessage = message_or_json error;
                    isNoImageError = includes_str errorMessage NO_IMAGE_MARKER
                in if isNoImageError then
                     (case extractStyle prompt of
                        None \<Rightarrow> (Inl error, w1)
                      | Some style \<Rightarrow>
                          (case call_then_interpret interp up
                                  (ips @ [TextPart (getFallbackPrompt style)]) w1 of
                             (Inr url, w2) \<Rightarrow> (Inr url, w2)
                           | (Inl fallbackError, w2) \<Rightarrow>
                               (Inl (JsError
                                  (''The AI model failed with both original and fallback prompts. Last error: ''
                                   @ message_or_String fallbackError)), w2)))
                   else
                     (Inl (JsError (''The AI model failed to generate an image. Details: ''
                                    @ errorMessage)), w1))))"

section \<open>The serverless function handler\<close>

definition json_response :: "nat \<Rightarrow> api_body \<Rightarrow> http_response" where
  "json_response code body = \<lparr>status_code = code, json = Inr body\<rparr>"

definition error_body :: "string \<Rightarrow> string \<Rightarrow> api_body" where
  "error_body err msg =
     \<lparr>body_success = None, body_imageUrl = None, body_message = Some msg, body_error = Some err\<rparr>"

text \<open>
  The handler, on a body whose \<open>images\<close> is an array of strings and whose \<open>prompt\<close> is a
  string, as the service sends it. On such a body the Vercel and the Netlify handler
  run the same checks; they differ in \<open>interp\<close>, their \<open>processGeminiResponse\<close>. The
  answer to \<open>OPTIONS\<close> has an empty body, which \<open>response.json()\<close> rejects.
\<close>

definition handler ::
  "(response \<Rightarrow> thrown + string) \<Rightarrow> upstream \<Rightarrow> http_request \<Rightarrow> world
     \<Rightarrow> http_response \<times> world" where
  \<open>handler interp up req w =
     (if req_method req = OPTIONS then
        (\<lparr>status_code = 200, json = Inl (JsError ''Unexpected end of JSON input'')\<rparr>, w)
      else if req_method req \<noteq> POST then
        (json_response 405 (error_body ''Method not allowed'' ''Only POST requests are supported''), w)
      else if req_images req = [] then
        (json_response 400 (error_body ''Invalid request''
           ''Missing or invalid "images" array in request body''), w)
      else if req_prompt req = [] then
        (json_response 400 (error_body ''Invalid request''
           ''Missing or invalid "prompt" string in request body''), w)
      else if \<not> list_all (\<lambda>image. startsWith image ''data:image/'') (req_images req) then
        (json_response 400 (error_body ''Invalid image format''
           ''All images must be valid data URLs starting with "data:image/"''), w)
      else
        (case generateStyleImage_api interp up (req_images req) (req_prompt req) w of
           (Inr imageUrl, w') \<Rightarrow>
             (json_response 200
                \<lparr>body_success = Some True, body_imageUrl = Some imageUrl,
                 body_message = Some ''Image generated successfully'', body_error = None\<rparr>, w')
         | (Inl e, w') \<Rightarrow>
             (let errorMessage = (case e of JsError m \<Rightarrow> m | JsValue j s \<Rightarrow> ''Unknown error occurred'')
              in (json_response 500
                    \<lparr>body_success = Some False, body_imageUrl = None,
                     body_message = Some errorMessage,
                     body_error = Some ''Image generation failed''\<rparr>, w'))))\<close>

section \<open>The frontend service\<close>

text \<open>\<open>String.prototype.trim\<close>: white space and line terminators, among the code units
  below 256.\<close>

definition is_space :: "char \<Rightarrow> bool" where
  "is_space c = (c \<in> set [CHR 0x09, CHR 0x0A, CHR 0x0B, CHR 0x0C, CHR 0x0D, CHR 0x20, CHR 0xA0])"

definition trim :: "string \<Rightarrow> string" where
  "trim s = rev (dropWhile is_space (rev (dropWhile is_space s)))"

text \<open>A number in a template hole: its decimal digits.\<close>

fun show_nat :: "nat \<Rightarrow> string" where
  "show_nat n =
     (if n < 10 then [''0123456789'' ! n]
      else show_nat (n div 10) @ [''0123456789'' ! (n mod 10)])"

declare show_nat.simps [simp del]

text \<open>
  The canned messages of the service's \<open>catch\<close> clause. The first starts, in the
  source, with a warning sign (U+26A0, U+FE0F), written here as its UTF-8 bytes.
\<close>

definition TECHNICAL_ISSUE_MESSAGE :: string where
  "TECHNICAL_ISSUE_MESSAGE =
     [CHR 0xE2, CHR 0x9A, CHR 0xA0, CHR 0xEF, CHR 0xB8, CHR 0x8F]
     @ '' Technical Issue: This application is configured to use Google Gemini API, which cannot generate images. To enable image generation, the application needs to be updated to use an image generation service like DALL-E or Stable Diffusion.''"

definition NETWORK_ERROR_MESSAGE :: string where
  "NETWORK_ERROR_MESSAGE =
     ''Network error: Unable to connect to the image generation service. Please check your internet connection and try again.''"

definition SERVER_ERROR_MESSAGE :: string where
  "SERVER_ERROR_MESSAGE =
     ''Server error: The image generation service is temporarily unavailable. Please try again in a few minutes.''"

text \<open>The \<open>catch\<close> clause of the service: the error it throws for a caught one.\<close>

definition friendly_error :: "thrown \<Rightarrow> thrown" where
  "friendly_error e =
     (let errorMessage = message_or_String e
      in if includes_str errorMessage ''IMAGE_GENERATION_NOT_SUPPORTED'' then
           JsError TECHNICAL_ISSUE_MESSAGE
         else if includes_str errorMessage ''Failed to fetch''
                 \<or> includes_str errorMessage ''NetworkError'' then
           JsError NETWORK_ERROR_MESSAGE
         else if includes_str errorMessage ''Server responded with status: 5'' then
           JsError SERVER_ERROR_MESSAGE
         else JsError (''Failed to generate image: '' @ errorMessage))"

type_synonym fetch = "http_request \<Rightarrow> world \<Rightarrow> (thrown + http_response) \<times> world"

text \<open>The \<open>try\<close> block of the service's \<open>generateStyleImage\<close>.\<close>

definition service_try ::
  "fetch \<Rightarrow> string list \<Rightarrow> string \<Rightarrow> world \<Rightarrow> (thrown + string) \<times> world" where
  "service_try fetch imageDataUrls prompt w =
     (if imageDataUrls = [] then
        (Inl (JsError ''At least one image is required for remodeling''), w)
      else if prompt = [] \<or> trim prompt = [] then
        (Inl (JsError ''A prompt is required for image generation''), w)
      else if \<not> list_all (\<lambda>imageUrl. startsWith imageUrl ''data:image/'') imageDataUrls then
        (Inl (JsError ''All images must be valid data URLs''), w)
      else
        (let req = \<lparr>req_method = POST, req_images = imageDataUrls, req_prompt = prompt\<rparr>
         in case fetch req (w\<lparr>fetches := fetches w @ [req]\<rparr>) of
              (Inl e, w1) \<Rightarrow> (Inl e, w1)
            | (Inr resp, w1) \<Rightarrow>
                if \<not> (200 \<le> status_code resp \<and> status_code resp \<le> 299) then
                  (let errorData =
                         (case json resp of
                            Inl e \<Rightarrow> \<lparr>body_success = None, body_imageUrl = None,
                                       body_message = None, body_error = None\<rparr>
                          | Inr b \<Rightarrow> b);
                       errorMessage =
                         or_else (or_else (body_message errorData) (body_error errorData))
                           (Some (''Server responded with status: '' @ show_nat (status_code resp)))
                   in (Inl (JsError (''Image generation failed: '' @ template errorMessage)), w1))
                else
                  (case json resp of
                     Inl e \<Rightarrow> (Inl e, w1)
                   | Inr d \<Rightarrow>
                       (case (if body_success d = Some True then or_else (body_imageUrl d) None
                              else None) of
                          None \<Rightarrow>
                            (Inl (JsError (template (or_else (body_message d)
                               (Some ''Backend API returned invalid response format'')))), w1)
                        | Some imageUrl \<Rightarrow> (Inr imageUrl, w1)))))"

definition generateStyleImage_service ::
  "fetch \<Rightarrow> string list \<Rightarrow> string \<Rightarrow> world \<Rightarrow> (thrown + string) \<times> world" where
  "generateStyleImage_service fetch imageDataUrls prompt w =
     (case service_try fetch imageDataUrls prompt w of
        (Inr imageUrl, w') \<Rightarrow> (Inr imageUrl, w')
      | (Inl e, w') \<Rightarrow> (Inl (friendly_error e), w'))"

text \<open>The deployed system: \<open>fetch\<close> reaches the handler.\<close>

definition api_fetch :: "(response \<Rightarrow> thrown + string) \<Rightarrow> upstream \<Rightarrow> fetch" where
  "api_fetch interp up req w = (case handler interp up req w of (resp, w') \<Rightarrow> (Inr resp, w'))"

section \<open>The application: session state, per-style task, scheduler\<close>

datatype ImageStatus = StatusPending | StatusDone | StatusError

record GeneratedImage =
  status :: ImageStatus
  url :: "string option"
  error :: "string option"

datatype AppState = Idle | ImageUploaded | Generating | ResultsShown

record app =
  uploadedImages :: "string list"
  generatedImages :: "string \<rightharpoonup> GeneratedImage"
  isLoading :: bool
  appState :: AppState

text \<open>What \<open>await generateStyleImage(uploadedImages, prompt)\<close> does, as the application
  sees it.\<close>

type_synonym service = "string list \<Rightarrow> string \<Rightarrow> world \<Rightarrow> (thrown + string) \<times> world"

definition pending_image :: GeneratedImage where
  "pending_image = \<lparr>status = StatusPending, url = None, error = None\<rparr>"

text \<open>
  \<open>processStyle\<close>: the call, then the functional update of the session state with the
  outcome. Nothing is thrown past it.
\<close>

definition processStyle :: "service \<Rightarrow> string \<Rightarrow> app \<times> world \<Rightarrow> app \<times> world" where
  "processStyle svc style aw =
     (case aw of (a, w) \<Rightarrow>
        (case svc (uploadedImages a) (style_prompt style) w of
           (Inr resultUrl, w') \<Rightarrow>
             (a\<lparr>generatedImages := (generatedImages a)
                  (style \<mapsto> \<lparr>status = StatusDone, url = Some resultUrl, error = None\<rparr>)\<rparr>, w')
         | (Inl err, w') \<Rightarrow>
             (let errorMessage =
                    (case err of JsError m \<Rightarrow> m | JsValue j t \<Rightarrow> ''An unknown error occurred.'')
              in (a\<lparr>generatedImages := (generatedImages a)
                     (style \<mapsto> \<lparr>status = StatusError, url = None, error = Some errorMessage\<rparr>)\<rparr>,
                  w'))))"

text \<open>
  \<open>handleRegenerateStyle\<close>, from the request to the settled call. Its \<open>try\<close> and
  \<open>catch\<close> are those of \<open>processStyle\<close>.
\<close>

definition handleRegenerateStyle :: "service \<Rightarrow> string \<Rightarrow> app \<times> world \<Rightarrow> app \<times> world" where
  "handleRegenerateStyle svc style aw =
     (case aw of (a, w) \<Rightarrow>
        if uploadedImages a = [] then (a, w)
        else if (case generatedImages a style of None \<Rightarrow> False
                 | Some g \<Rightarrow> status g = StatusPending) then (a, w)
        else processStyle svc style
               (a\<lparr>generatedImages := (generatedImages a)(style \<mapsto> pending_image)\<rparr>, w))"

section \<open>Calls in two phases\<close>

text \<open>
  A call of the service's \<open>generateStyleImage\<close> runs up to its first \<open>await\<close> when it is
  made: the inputs are checked and the request is handed to \<open>fetch\<close>. What is then
  awaited is a ticket: the error already thrown, or the request sent. The call settles
  later: the request is answered (what the backend does for it is recorded at that
  moment), the answer is read, and the \<open>catch\<close> clause rewrites an error.
\<close>

datatype ticket = Rejected thrown | Sent http_request

definition service_begin :: "string list \<Rightarrow> string \<Rightarrow> world \<Rightarrow> ticket \<times> world" where
  "service_begin imageDataUrls prompt w =
     (if imageDataUrls = [] then
        (Rejected (JsError ''At least one image is required for remodeling''), w)
      else if prompt = [] \<or> trim prompt = [] then
        (Rejected (JsError ''A prompt is required for image generation''), w)
      else if \<not> list_all (\<lambda>imageUrl. startsWith imageUrl ''data:image/'') imageDataUrls then
        (Rejected (JsError ''All images must be valid data URLs''), w)
      else
        (let req = \<lparr>req_method = POST, req_images = imageDataUrls, req_prompt = prompt\<rparr>
         in (Sent req, w\<lparr>fetches := fetches w @ [req]\<rparr>)))"

text \<open>The statements of the service after \<open>await fetch(...)\<close>.\<close>

definition read_response :: "http_response \<Rightarrow> thrown + string" where
  "read_response resp =
     (if \<not> (200 \<le> status_code resp \<and> status_code resp \<le> 299) then
        (let errorData =
               (case json resp of
                  Inl e \<Rightarrow> \<lparr>body_success = None, body_imageUrl = None,
                             body_message = None, body_error = None\<rparr>
                | Inr b \<Rightarrow> b);
             errorMessage =
               or_else (or_else (body_message errorData) (body_error errorData))
                 (Some (''Server responded with status: '' @ show_nat (status_code resp)))
         in Inl (JsError (''Image generation failed: '' @ template errorMessage)))
      else
        (case json resp of
           Inl e \<Rightarrow> Inl e
         | Inr d \<Rightarrow>
             (case (if body_success d = Some True then or_else (body_imageUrl d) None
                    else None) of
                None \<Rightarrow>
                  Inl (JsError (template (or_else (body_message d)
                     (Some ''Backend API returned invalid response format''))))
              | Some imageUrl \<Rightarrow> Inr imageUrl)))"

definition service_settle :: "fetch \<Rightarrow> ticket \<Rightarrow> world \<Rightarrow> (thrown + string) \<times> world" where
  "service_settle fetch t w =
     (case (case t of
              Rejected e \<Rightarrow> (Inl e, w)
            | Sent req \<Rightarrow>
                (case fetch req w of
                   (Inl e, w1) \<Rightarrow> (Inl e, w1)
                 | (Inr resp, w1) \<Rightarrow> (read_response resp, w1))) of
        (Inr imageUrl, w') \<Rightarrow> (Inr imageUrl, w')
      | (Inl e, w') \<Rightarrow> (Inl (friendly_error e), w'))"

text \<open>
  The statements of \<open>processStyle\<close> (and of \<open>handleRegenerateStyle\<close>) after the \<open>await\<close>:
  the entry written for the outcome of the call.
\<close>

definition settle_entry :: "thrown + string \<Rightarrow> GeneratedImage" where
  "settle_entry r =
     (case r of
        Inr resultUrl \<Rightarrow> \<lparr>status = StatusDone, url = Some resultUrl, error = None\<rparr>
      | Inl err \<Rightarrow>
          (let errorMessage =
                 (case err of JsError m \<Rightarrow> m | JsValue j t \<Rightarrow> ''An unknown error occurred.'')
           in \<lparr>status = StatusError, url = None, error = Some errorMessage\<rparr>))"

definition processStyle_settle ::
  "fetch \<Rightarrow> string \<Rightarrow> ticket \<Rightarrow> app \<times> world \<Rightarrow> app \<times> world" where
  "processStyle_settle fetch style t aw =
     (case aw of (a, w) \<Rightarrow>
        (case service_settle fetch t w of
           (r, w') \<Rightarrow>
             (a\<lparr>generatedImages := (generatedImages a)(style \<mapsto> settle_entry r)\<rparr>, w')))"

section \<open>The round: workers, open calls and user events\<close>

text \<open>
  The round started by \<open>handleGenerateClick\<close>. Each of the \<open>concurrencyLimit\<close> workers
  is at the head of its \<open>while\<close> loop, awaits \<open>processStyle\<close> for the style it has
  shifted from the queue, or has left the loop. The state records every call that has
  been made and has not settled yet, with its style, its ticket and who awaits it: a
  worker, or a regeneration requested by the user.

  A schedule is a list of events, in the order in which the single thread runs them.
  \<open>Step i\<close>: worker \<open>i\<close> runs to its next \<open>await\<close>. At the loop head it tests the queue
  and leaves, or shifts a style (a falsy, that is empty, style is skipped) and makes its
  call, which is then open; while it awaits, its call settles, the session state is
  updated and the worker is back at the loop head. \<open>Shake style\<close>: the user asks for a
  regeneration; \<open>handleRegenerateStyle\<close> runs to its \<open>await\<close>, and past its guards it
  sets the entry to pending and makes a call. \<open>Settle style\<close>: the open regeneration
  call for that style settles. No regeneration is open when the round starts.
\<close>

datatype owner = Worker nat | Regeneration

record open_call =
  call_style :: string
  call_ticket :: ticket
  call_owner :: owner

datatype worker = AtLoopHead | Awaiting string | Exited

record sched =
  stylesQueue :: "string list"
  workers :: "worker list"
  open_calls :: "open_call list"
  sched_app :: app
  sched_world :: world

datatype event = Step nat | Shake string | Settle string

definition concurrencyLimit :: nat where
  "concurrencyLimit = 2"

definition initialImages :: "string \<rightharpoonup> GeneratedImage" where
  "initialImages = fold (\<lambda>style m. m(style \<mapsto> pending_image)) STYLES Map.empty"

definition start_round :: "app \<Rightarrow> world \<Rightarrow> sched" where
  "start_round a w =
     \<lparr>stylesQueue = STYLES,
      workers = replicate concurrencyLimit AtLoopHead,
      open_calls = [],
      sched_app = a\<lparr>isLoading := True, appState := Generating, generatedImages := initialImages\<rparr>,
      sched_world = w\<rparr>"

text \<open>Making a call for a style: the service runs to its \<open>await\<close> and the call is open.\<close>

definition start_call :: "string \<Rightarrow> owner \<Rightarrow> sched \<Rightarrow> sched" where
  "start_call style ow s =
     (case service_begin (uploadedImages (sched_app s)) (style_prompt style) (sched_world s) of
        (t, w') \<Rightarrow>
          s\<lparr>sched_world := w',
            open_calls := open_calls s
              @ [\<lparr>call_style = style, call_ticket = t, call_owner = ow\<rparr>]\<rparr>)"

text \<open>An open call settles: it is no longer open, and its entry is written.\<close>

definition settle_call :: "fetch \<Rightarrow> open_call \<Rightarrow> sched \<Rightarrow> sched" where
  "settle_call fetch c s =
     (case processStyle_settle fetch (call_style c) (call_ticket c) (sched_app s, sched_world s) of
        (a', w') \<Rightarrow>
          s\<lparr>sched_app := a', sched_world := w', open_calls := remove1 c (open_calls s)\<rparr>)"

definition round_step :: "fetch \<Rightarrow> event \<Rightarrow> sched \<Rightarrow> sched" where
  "round_step fetch ev s =
     (case ev of
        Step i \<Rightarrow>
          (if i < length (workers s) then
             (case workers s ! i of
                Exited \<Rightarrow> s
              | AtLoopHead \<Rightarrow>
                  (case stylesQueue s of
                     [] \<Rightarrow> s\<lparr>workers := (workers s)[i := Exited]\<rparr>
                   | style # rest \<Rightarrow>
                       if style \<noteq> [] then
                         start_call style (Worker i)
                           (s\<lparr>stylesQueue := rest, workers := (workers s)[i := Awaiting style]\<rparr>)
                       else s\<lparr>stylesQueue := rest\<rparr>)
              | Awaiting style \<Rightarrow>
                  (case List.find (\<lambda>c. call_owner c = Worker i) (open_calls s) of
                     None \<Rightarrow> s
                   | Some c \<Rightarrow>
                       (settle_call fetch c s)
                         \<lparr>workers := (workers s)[i := AtLoopHead]\<rparr>))
           else s)
      | Shake style \<Rightarrow>
          (if uploadedImages (sched_app s) = [] then s
           else if (case generatedImages (sched_app s) style of None \<Rightarrow> False
                    | Some g \<Rightarrow> status g = StatusPending) then s
           else
             start_call style Regeneration
               (s\<lparr>sched_app := (sched_app s)
                    \<lparr>generatedImages := (generatedImages (sched_app s))(style \<mapsto> pending_image)\<rparr>\<rparr>))
      | Settle style \<Rightarrow>
          (case List.find (\<lambda>c. call_owner c = Regeneration \<and> call_style c = style)
                  (open_calls s) of
             None \<Rightarrow> s
           | Some c \<Rightarrow> settle_call fetch c s))"

definition run_round :: "fetch \<Rightarrow> event list \<Rightarrow> sched \<Rightarrow> sched" where
  "run_round fetch schedule s = fold (round_step fetch) schedule s"

text \<open>
  The calls in flight: made and not yet settled. Those of the scheduler are the ones a
  worker awaits.
\<close>

definition in_flight :: "sched \<Rightarrow> nat" where
  "in_flight s = length (open_calls s)"

definition scheduler_in_flight :: "sched \<Rightarrow> nat" where
  "scheduler_in_flight s = length (filter (\<lambda>c. call_owner c \<noteq> Regeneration) (open_calls s))"

definition settled :: "sched \<Rightarrow> bool" where
  "settled s = list_all (\<lambda>wk. wk = Exited) (workers s)"

text \<open>
  \<open>handleGenerateClick\<close> under a schedule: nothing happens without uploaded images;
  the statements after \<open>await Promise.all(workers)\<close> run once every worker has left its
  loop.
\<close>

definition handleGenerateClick :: "fetch \<Rightarrow> event list \<Rightarrow> app \<times> world \<Rightarrow> app \<times> world" where
  "handleGenerateClick fetch schedule aw =
     (case aw of (a, w) \<Rightarrow>
        if uploadedImages a = [] then (a, w)
        else
          (let s = run_round fetch schedule (start_round a w)
           in if settled s then
                ((sched_app s)\<lparr>isLoading := False, appState := ResultsShown\<rparr>, sched_world s)
              else (sched_app s, sched_world s)))"

section \<open>Vocabulary of the properties\<close>

text \<open>
  The outcome of the \<open>a\<close>-th upstream call of one invocation of the wrapper started in
  world \<open>w\<close> (the upstream has then seen \<open>a - 1\<close> more requests), and whether an outcome
  is a failure that the wrapper classifies as transient.
\<close>

definition attempt_outcome :: "upstream \<Rightarrow> req_part list \<Rightarrow> world \<Rightarrow> nat \<Rightarrow> thrown + response" where
  "attempt_outcome up ps w a = up (calls w @ replicate (a - 1) ps) ps"

definition is_transient :: "thrown + response \<Rightarrow> bool" where
  "is_transient x = (case x of Inl e \<Rightarrow> isInternalError e | Inr resp \<Rightarrow> False)"

text \<open>The error the Vercel interpreter throws when it finds no image, as a function of
  the text it quotes; and the prefix the backend puts before any other failure.\<close>

definition no_image_failure :: "string \<Rightarrow> thrown" where
  \<open>no_image_failure t = JsError (NO_IMAGE_MARKER @ '': "'' @ t @ ''"'')\<close>

definition DETAILS_PREFIX :: string where
  "DETAILS_PREFIX = ''The AI model failed to generate an image. Details: ''"

text \<open>A session-state entry is terminal when it is done or failed.\<close>

definition is_terminal :: "GeneratedImage option \<Rightarrow> bool" where
  "is_terminal g = (case g of None \<Rightarrow> False | Some x \<Rightarrow> status x = StatusDone \<or> status x = StatusError)"

text \<open>
  Measures and invariants of a round. Every step of a worker that has not left its loop
  lowers the potential: a queued style counts 2 (it is shifted, then settled), a worker
  at its loop head 1 (it may still leave) and an awaiting worker 2. The open calls match
  the workers when the workers that own an open call are, each once, those that await.
  A style of the catalogue is tracked when it is still queued, has an open call, or is
  terminal in the session state. The queue is drained once a worker has left its loop.
  A style is being regenerated when a regeneration call for it is open, and a schedule
  has no regeneration when no event of it is a \<open>Shake\<close>.
\<close>

fun cost :: "worker \<Rightarrow> nat" where
  "cost AtLoopHead = 1"
| "cost (Awaiting style) = 2"
| "cost Exited = 0"

definition potential :: "sched \<Rightarrow> nat" where
  "potential s = 2 * length (stylesQueue s) + sum_list (map cost (workers s))"

fun is_awaiting :: "worker \<Rightarrow> bool" where
  "is_awaiting (Awaiting style) = True"
| "is_awaiting AtLoopHead = False"
| "is_awaiting Exited = False"

fun owner_ids :: "open_call list \<Rightarrow> nat list" where
  "owner_ids [] = []"
| "owner_ids (c # cs) =
     (case call_owner c of Worker i \<Rightarrow> i # owner_ids cs | Regeneration \<Rightarrow> owner_ids cs)"

definition calls_match_workers :: "sched \<Rightarrow> bool" where
  "calls_match_workers s =
     (distinct (owner_ids (open_calls s))
      \<and> (\<forall>i. (i \<in> set (owner_ids (open_calls s)))
             = (i < length (workers s) \<and> is_awaiting (workers s ! i))))"

definition tracked :: "string \<Rightarrow> sched \<Rightarrow> bool" where
  "tracked S s = (S \<in> set (stylesQueue s) \<or> S \<in> set (map call_style (open_calls s))
      \<or> is_terminal (generatedImages (sched_app s) S))"

definition queue_drained :: "sched \<Rightarrow> bool" where
  "queue_drained s = (Exited \<in> set (workers s) \<longrightarrow> stylesQueue s = [])"

definition regenerating :: "string \<Rightarrow> sched \<Rightarrow> bool" where
  "regenerating S s =
     list_ex (\<lambda>c. call_style c = S \<and> call_owner c = Regeneration) (open_calls s)"

fun is_shake :: "event \<Rightarrow> bool" where
  "is_shake (Shake style) = True"
| "is_shake (Step i) = False"
| "is_shake (Settle style) = False"

definition no_regeneration :: "event list \<Rightarrow> bool" where
  "no_regeneration schedule = list_all (\<lambda>ev. \<not> is_shake ev) schedule"

section \<open>Sample inputs\<close>

definition w0 :: world where
  "w0 = \<lparr>fetches = [], calls = [], waits = []\<rparr>"

definition a0 :: app where
  "a0 = \<lparr>uploadedImages = [''data:image/png;base64,AAAA''], generatedImages = Map.empty,
          isLoading = False, appState = ImageUploaded\<rparr>"

definition a_pending :: app where
  "a_pending = a0\<lparr>generatedImages := [''Modern'' \<mapsto> pending_image], appState := Generating\<rparr>"

definition image_response :: response where
  "image_response =
     \<lparr>candidates = Some [\<lparr>candidate_content = Some
        \<lparr>parts = Some [\<lparr>inlineData = Some \<lparr>mimeType = Some ''image/png'', data = Some ''QUJD''\<rparr>,
                        part_text = None\<rparr>],
         content_json = ''{}''\<rparr>\<rparr>],
      response_response_candidates = None,
      response_text = None\<rparr>"

definition text_only_response :: response where
  "text_only_response =
     \<lparr>candidates = Some [\<lparr>candidate_content = Some
        \<lparr>parts = Some [\<lparr>inlineData = None, part_text = Some ''I cannot do that''\<rparr>],
         content_json = ''{}''\<rparr>\<rparr>],
      response_response_candidates = None,
      response_text = Some ''I cannot do that''\<rparr>"

definition no_explanation_response :: response where
  "no_explanation_response =
     \<lparr>candidates = Some [], response_response_candidates = None, response_text = None\<rparr>"

definition svg_response :: response where
  "svg_response =
     \<lparr>candidates = Some [\<lparr>candidate_content = Some
        \<lparr>parts = Some [\<lparr>inlineData = Some \<lparr>mimeType = Some ''image/svg+xml'', data = Some ''QUJD''\<rparr>,
                        part_text = None\<rparr>],
         content_json = ''{}''\<rparr>\<rparr>],
      response_response_candidates = None,
      response_text = None\<rparr>"

definition empty_data_response :: response where
  "empty_data_response =
     \<lparr>candidates = Some [\<lparr>candidate_content = Some
        \<lparr>parts = Some [\<lparr>inlineData = Some \<lparr>mimeType = Some ''image/png'', data = Some []\<rparr>,
                        part_text = None\<rparr>],
         content_json = ''{}''\<rparr>\<rparr>],
      response_response_candidates = None,
      response_text = None\<rparr>"

text \<open>Upstreams: one that fails with an internal error on its first two calls; one
  that answers with text only, whatever it is asked; two that always throw; and one that fails with an internal error, then with another.\<close>

definition transient_twice :: upstream where
  \<open>transient_twice h ps =
     (if length h < 2 then Inl (JsError ''{"error":{"code":500,"status":"INTERNAL"}}'')
      else Inr image_response)\<close>

definition always_refuses :: upstream where
  "always_refuses h ps = Inr text_only_response"

definition network_error_upstream :: upstream where
  "network_error_upstream h ps = Inl (JsError ''NetworkError when attempting to reach the model'')"

definition quota_upstream :: upstream where
  "quota_upstream h ps = Inl (JsError ''quota exceeded'')"

definition transient_then_quota :: upstream where
  \<open>transient_then_quota h ps =
     (if length h < 1 then Inl (JsError ''{"error":{"code":500,"status":"INTERNAL"}}'')
      else Inl (JsError ''quota exceeded''))\<close>

text \<open>
  The deployed stack over the refusing upstream; a network that is down; a schedule
  that runs each of the two workers fourteen times; and two schedules in which the user
  shakes the card of Modern once its task has settled: one stops with three calls in
  flight, the other goes on until both workers have left their loops.
\<close>

definition refusing_service :: service where
  "refusing_service = generateStyleImage_service (api_fetch processGeminiResponse_vercel always_refuses)"

definition offline_fetch :: fetch where
  "offline_fetch req w = (Inl (JsError ''Failed to fetch''), w)"

definition round_robin :: "event list" where
  "round_robin = concat (replicate 14 [Step 0, Step 1])"


definition shaken_round_schedule :: "event list" where
  "shaken_round_schedule = [Step 0, Step 0, Shake ''Modern''] @ round_robin"

section \<open>Facts about strings\<close>

lemma startsWith_append: "startsWith (p @ s) p"
  by (induction p) simp_all

lemma includes_str_prefix: "includes_str (p @ s) p"
proof (cases "p @ s")
  case Nil
  then show ?thesis by simp
next
  case (Cons a l)
  have "startsWith (p @ s) p" by (rule startsWith_append)
  with Cons show ?thesis by simp
qed

lemma trim_Nil_iff: "trim s = [] \<longleftrightarrow> list_all is_space s"
proof
  assume "trim s = []"
  then have all: "\<forall>x\<in>set (dropWhile is_space s). is_space x"
    by (simp add: trim_def)
  show "list_all is_space s"
  proof (cases "dropWhile is_space s")
    case Nil
    then show ?thesis by (simp add: list_all_iff)
  next
    case (Cons x xs)
    then have nx: "\<not> is_space x" using hd_dropWhile [of is_space s] by simp
    from all Cons have "is_space x" by simp
    with nx show ?thesis by simp
  qed
next
  assume "list_all is_space s"
  then have d: "dropWhile is_space s = []" by (simp add: list_all_iff)
  show "trim s = []" unfolding trim_def d by simp
qed

lemma style_prompt_not_blank: "style_prompt style \<noteq> [] \<and> trim (style_prompt style) \<noteq> []"
  by (simp add: trim_Nil_iff style_prompt_def is_space_def)

lemma find_first:
  "list_all (\<lambda>q. \<not> P q) pre \<Longrightarrow> P p \<Longrightarrow> List.find P (pre @ p # post) = Some p"
  by (induction pre) simp_all

lemma find_none: "list_all (\<lambda>q. \<not> P q) ps \<Longrightarrow> List.find P ps = None"
  by (induction ps) simp_all


section \<open>The retrying call wrapper: attempts, retries and delays\<close>

lemma attempt_outcome_simps:
  "attempt_outcome up ps w (Suc 0) = up (calls w) ps"
  "attempt_outcome up ps w (Suc (Suc 0)) = up (calls w @ [ps]) ps"
  "attempt_outcome up ps w (Suc (Suc (Suc 0))) = up (calls w @ [ps, ps]) ps"
  by (simp_all add: attempt_outcome_def)

lemma all_between:
  "(\<forall>a. Suc 0 \<le> a \<and> a \<le> Suc 0 \<longrightarrow> P a) = P (Suc 0)"
  "(\<forall>a. Suc 0 \<le> a \<and> a \<le> Suc (Suc 0) \<longrightarrow> P a) = (P (Suc 0) \<and> P (Suc (Suc 0)))"
  "(\<forall>a. Suc 0 \<le> a \<and> a \<le> Suc (Suc (Suc 0)) \<longrightarrow> P a)
     = (P (Suc 0) \<and> P (Suc (Suc 0)) \<and> P (Suc (Suc (Suc 0))))"
proof -
  have e1: "\<And>a. (Suc 0 \<le> a \<and> a \<le> Suc 0) = (a = Suc 0)" by arith
  have e2: "\<And>a. (Suc 0 \<le> a \<and> a \<le> Suc (Suc 0)) = (a = Suc 0 \<or> a = Suc (Suc 0))" by arith
  have e3: "\<And>a. (Suc 0 \<le> a \<and> a \<le> Suc (Suc (Suc 0)))
      = (a = Suc 0 \<or> a = Suc (Suc 0) \<or> a = Suc (Suc (Suc 0)))" by arith
  show "(\<forall>a. Suc 0 \<le> a \<and> a \<le> Suc 0 \<longrightarrow> P a) = P (Suc 0)"
    unfolding e1 by simp
  show "(\<forall>a. Suc 0 \<le> a \<and> a \<le> Suc (Suc 0) \<longrightarrow> P a) = (P (Suc 0) \<and> P (Suc (Suc 0)))"
    unfolding e2 by auto
  show "(\<forall>a. Suc 0 \<le> a \<and> a \<le> Suc (Suc (Suc 0)) \<longrightarrow> P a)
     = (P (Suc 0) \<and> P (Suc (Suc 0)) \<and> P (Suc (Suc (Suc 0))))"
    unfolding e3 by auto
qed

text \<open>The three iterations of the loop, unfolded: the wrapper stops at the first
  attempt that is not a transient failure, and at the third in any case.\<close>

lemma retry_cases:
  "callGeminiWithRetry up ps w =
    (let o1 = attempt_outcome up ps w 1; o2 = attempt_outcome up ps w 2;
         o3 = attempt_outcome up ps w 3
     in if \<not> is_transient o1 then (o1, w\<lparr>calls := calls w @ [ps]\<rparr>)
        else if \<not> is_transient o2 then
          (o2, w\<lparr>calls := calls w @ [ps, ps], waits := waits w @ [1000]\<rparr>)
        else (o3, w\<lparr>calls := calls w @ [ps, ps, ps], waits := waits w @ [1000, 2000]\<rparr>))"
  unfolding callGeminiWithRetry_def is_transient_def
  apply (subst callGeminiWithRetry_from.simps)
  apply (subst callGeminiWithRetry_from.simps)
  apply (subst callGeminiWithRetry_from.simps)
  apply (simp add: maxRetries_def initialDelay_def Let_def numeral_3_eq_3 numeral_2_eq_2
      attempt_outcome_simps split: sum.splits)
  done

lemma callGeminiWithRetry_fetches:
  "fetches (snd (callGeminiWithRetry up ps w)) = fetches w"
  by (simp add: retry_cases Let_def)

text \<open>
  C1. One invocation of the retrying call wrapper issues \<open>k\<close> upstream calls with
  \<open>1 \<le> k \<le> 3\<close>, all with the same request. After attempt \<open>a\<close> it retries exactly when
  that attempt failed with an error classified as internal and \<open>a < 3\<close>; before each
  retry it waits \<open>1000 * 2 ^ (a - 1)\<close>. What it returns or throws is the outcome of its
  last attempt, unmodified. In particular, when the first two attempts fail
  transiently, exactly three calls are issued, the delays are 1000 and 2000, and the
  result is the outcome of the third call.
\<close>

theorem callGeminiWithRetry_contract:
  "(let (r, w') = callGeminiWithRetry up ps w;
        k = length (calls w') - length (calls w)
    in 1 \<le> k \<and> k \<le> 3
     \<and> calls w' = calls w @ replicate k ps
     \<and> waits w' = waits w @ map (\<lambda>a. 1000 * 2 ^ (a - 1)) [1..<k]
     \<and> (\<forall>a. 1 \<le> a \<and> a \<le> k \<longrightarrow>
           (a < k) = (is_transient (attempt_outcome up ps w a) \<and> a < 3))
     \<and> r = attempt_outcome up ps w k
     \<and> (is_transient (attempt_outcome up ps w 1) \<and> is_transient (attempt_outcome up ps w 2)
          \<longrightarrow> k = 3 \<and> r = attempt_outcome up ps w 3 \<and> waits w' = waits w @ [1000, 2000]))"
  by (simp add: retry_cases Let_def all_between numeral_3_eq_3 numeral_2_eq_2 upt_rec)

theorem callGeminiWithRetry_contract_witness:
  "is_transient (attempt_outcome transient_twice [TextPart ''p''] w0 1)
   \<and> is_transient (attempt_outcome transient_twice [TextPart ''p''] w0 2)
   \<and> callGeminiWithRetry transient_twice [TextPart ''p''] w0
       = (Inr image_response,
          \<lparr>fetches = [], calls = [[TextPart ''p''], [TextPart ''p''], [TextPart ''p'']],
           waits = [1000, 2000]\<rparr>)"
proof -
  have t1: "is_transient (attempt_outcome transient_twice [TextPart ''p''] w0 1)"
    by (simp add: is_transient_def attempt_outcome_def transient_twice_def w0_def
        isInternalError_def)
  have t2: "is_transient (attempt_outcome transient_twice [TextPart ''p''] w0 2)"
    by (simp add: is_transient_def attempt_outcome_def transient_twice_def w0_def
        isInternalError_def)
  have o3: "attempt_outcome transient_twice [TextPart ''p''] w0 3 = Inr image_response"
    by (simp add: attempt_outcome_def transient_twice_def w0_def numeral_3_eq_3)
  obtain r w' where rw: "callGeminiWithRetry transient_twice [TextPart ''p''] w0 = (r, w')"
    by (cases "callGeminiWithRetry transient_twice [TextPart ''p''] w0") simp
  have "length (calls w') - length (calls w0) = 3 \<and> r = Inr image_response
      \<and> waits w' = waits w0 @ [1000, 2000]
      \<and> calls w' = calls w0 @ replicate (length (calls w') - length (calls w0)) [TextPart ''p'']"
    using callGeminiWithRetry_contract [of transient_twice "[TextPart ''p'']" w0] t1 t2
    unfolding rw Let_def prod.case o3 by blast
  then have len: "length (calls w') - length (calls w0) = 3"
    and r: "r = Inr image_response"
    and ws': "waits w' = waits w0 @ [1000, 2000]"
    and cs: "calls w' = calls w0 @ replicate (length (calls w') - length (calls w0)) [TextPart ''p'']"
    by blast+
  have k: "calls w' = replicate 3 [TextPart ''p'']"
    using cs unfolding len by (simp add: w0_def)
  have ws: "waits w' = [1000, 2000]"
    using ws' by (simp add: w0_def)
  have fs: "fetches w' = []"
    using callGeminiWithRetry_fetches [of transient_twice "[TextPart ''p'']" w0] rw
    by (simp add: w0_def)
  have "w' = \<lparr>fetches = [], calls = [[TextPart ''p''], [TextPart ''p''], [TextPart ''p'']],
           waits = [1000, 2000]\<rparr>"
    using k ws fs by (simp add: numeral_3_eq_3)
  with t1 t2 r rw show ?thesis by simp
qed

section \<open>The response interpreter: image parts and data URLs\<close>

lemma is_word_semicolon: "\<not> is_word CHR '';''"
  by (simp add: is_word_def)

lemma takeWhile_word_semicolon:
  "list_all is_word sub \<Longrightarrow> takeWhile is_word (sub @ CHR '';'' # rest) = sub"
  by (induction sub) (simp_all add: is_word_semicolon)

lemma dropWhile_word_semicolon:
  "list_all is_word sub \<Longrightarrow> dropWhile is_word (sub @ CHR '';'' # rest) = CHR '';'' # rest"
  by (induction sub) (simp_all add: is_word_semicolon)

lemma match_data_url_roundtrip:
  assumes "sub \<noteq> []" "list_all is_word sub" "list_all (\<lambda>c. \<not> is_line_terminator c) b"
  shows "match_data_url (''data:'' @ (''image/'' @ sub) @ '';base64,'' @ b) = Some (''image/'' @ sub, b)"
  using assms
  by (simp add: match_data_url_def takeWhile_word_semicolon dropWhile_word_semicolon Let_def)

text \<open>
  C7, as amended. The Vercel interpreter looks at the parts of the first candidate only.
  When one of them carries inline data, it returns the data URL
  \<open>data:<mimeType>;base64,<data>\<close> built from the first such part, and the parts after
  it are ignored. When the media type is \<open>image/\<close> followed by word characters and the
  payload has no line terminator, parsing that URL with the expression of
  \<open>generateStyleImage\<close> gives back the same media type and the same payload. When no
  part of the first candidate carries inline data, it throws the no-image error quoting
  the response's text, or \<open>No text response received.\<close> when the text is missing or
  empty.
\<close>

theorem processGeminiResponse_vercel_contract:
  \<open>(candidate_parts (first_candidate (candidates r)) = Some (pre @ p # post)
      \<and> list_all (\<lambda>q. inlineData q = None) pre \<and> inlineData p = Some d
     \<longrightarrow> processGeminiResponse_vercel r
           = Inr (''data:'' @ template (mimeType d) @ '';base64,'' @ template (data d))
         \<and> (mimeType d = Some (''image/'' @ sub) \<and> sub \<noteq> [] \<and> list_all is_word sub
              \<and> data d = Some b \<and> list_all (\<lambda>c. \<not> is_line_terminator c) b
            \<longrightarrow> processGeminiResponse_vercel r = Inr (''data:'' @ (''image/'' @ sub) @ '';base64,'' @ b)
                \<and> match_data_url (''data:'' @ (''image/'' @ sub) @ '';base64,'' @ b)
                    = Some (''image/'' @ sub, b)))
   \<and> (candidate_parts (first_candidate (candidates r)) = None
        \<or> (\<exists>ps. candidate_parts (first_candidate (candidates r)) = Some ps
                \<and> list_all (\<lambda>q. inlineData q = None) ps)
      \<longrightarrow> processGeminiResponse_vercel r
            = Inl (no_image_failure
                (case response_text r of
                   None \<Rightarrow> ''No text response received.''
                 | Some t \<Rightarrow> if t = [] then ''No text response received.'' else t)))\<close>
proof (intro conjI impI)
  assume a: "candidate_parts (first_candidate (candidates r)) = Some (pre @ p # post)
      \<and> list_all (\<lambda>q. inlineData q = None) pre \<and> inlineData p = Some d"
  then have f: "List.find (\<lambda>p. inlineData p \<noteq> None) (pre @ p # post) = Some p"
    by (intro find_first) simp_all
  show url: "processGeminiResponse_vercel r
      = Inr (''data:'' @ template (mimeType d) @ '';base64,'' @ template (data d))"
    using a f by (simp add: processGeminiResponse_vercel_def)
  assume b: "mimeType d = Some (''image/'' @ sub) \<and> sub \<noteq> [] \<and> list_all is_word sub
      \<and> data d = Some b \<and> list_all (\<lambda>c. \<not> is_line_terminator c) b"
  show "processGeminiResponse_vercel r = Inr (''data:'' @ (''image/'' @ sub) @ '';base64,'' @ b)"
    using url b by (simp add: template_def)
  show "match_data_url (''data:'' @ (''image/'' @ sub) @ '';base64,'' @ b) = Some (''image/'' @ sub, b)"
    using b by (intro match_data_url_roundtrip) simp_all
next
  assume "candidate_parts (first_candidate (candidates r)) = None
        \<or> (\<exists>ps. candidate_parts (first_candidate (candidates r)) = Some ps
                \<and> list_all (\<lambda>q. inlineData q = None) ps)"
  then have "(case candidate_parts (first_candidate (candidates r)) of None \<Rightarrow> None
       | Some ps \<Rightarrow> List.find (\<lambda>p. inlineData p \<noteq> None) ps) = None"
    by (auto simp: find_none)
  then show "processGeminiResponse_vercel r
            = Inl (no_image_failure
                (case response_text r of
                   None \<Rightarrow> ''No text response received.''
                 | Some t \<Rightarrow> if t = [] then ''No text response received.'' else t))"
    by (simp add: processGeminiResponse_vercel_def no_image_failure_def NO_IMAGE_MARKER_def
        or_else_def template_def split: option.splits)
qed

theorem processGeminiResponse_vercel_contract_witness:
  "processGeminiResponse_vercel image_response = Inr ''data:image/png;base64,QUJD''
   \<and> match_data_url ''data:image/png;base64,QUJD'' = Some (''image/png'', ''QUJD'')
   \<and> processGeminiResponse_vercel text_only_response = Inl (no_image_failure ''I cannot do that'')"
proof -
  have a: "candidate_parts (first_candidate (candidates image_response))
      = Some ([] @ \<lparr>inlineData = Some \<lparr>mimeType = Some ''image/png'', data = Some ''QUJD''\<rparr>,
                    part_text = None\<rparr> # [])"
    by (simp add: image_response_def first_candidate_def candidate_parts_def)
  have w: "list_all is_word ''png'' \<and> list_all (\<lambda>c. \<not> is_line_terminator c) ''QUJD''"
    by code_simp
  from processGeminiResponse_vercel_contract [of image_response "[]"
      "\<lparr>inlineData = Some \<lparr>mimeType = Some ''image/png'', data = Some ''QUJD''\<rparr>, part_text = None\<rparr>"
      "[]" "\<lparr>mimeType = Some ''image/png'', data = Some ''QUJD''\<rparr>" "''png''" "''QUJD''"] a w
  have one: "processGeminiResponse_vercel image_response = Inr ''data:image/png;base64,QUJD''
      \<and> match_data_url ''data:image/png;base64,QUJD'' = Some (''image/png'', ''QUJD'')"
    by (simp add: template_def)
  have b: "candidate_parts (first_candidate (candidates text_only_response))
      = Some [\<lparr>inlineData = None, part_text = Some ''I cannot do that''\<rparr>]"
    by (simp add: text_only_response_def first_candidate_def candidate_parts_def)
  from processGeminiResponse_vercel_contract [of text_only_response] b
  have two: "processGeminiResponse_vercel text_only_response
      = Inl (no_image_failure ''I cannot do that'')"
    by (simp add: text_only_response_def)
  from one two show ?thesis by simp
qed

text \<open>
  The claim as first stated fails twice: with no text in the response the error quotes
  the placeholder, not the empty string; and a returned URL whose media type is
  \<open>image/svg+xml\<close> is not matched by the expression that parses data URLs.
\<close>

theorem processGeminiResponse_vercel_counterexample:
  "processGeminiResponse_vercel no_explanation_response
     = Inl (no_image_failure ''No text response received.'')
   \<and> processGeminiResponse_vercel no_explanation_response \<noteq> Inl (no_image_failure [])
   \<and> processGeminiResponse_vercel svg_response = Inr ''data:image/svg+xml;base64,QUJD''
   \<and> match_data_url ''data:image/svg+xml;base64,QUJD'' = None"
  by (simp add: processGeminiResponse_vercel_def no_explanation_response_def svg_response_def
      no_image_failure_def NO_IMAGE_MARKER_def first_candidate_def candidate_parts_def
      or_else_def template_def match_data_url_def is_word_def Let_def)

lemma first_inline_part_skip:
  "list_all (\<lambda>q. inlineData q = None) pre \<Longrightarrow> first_inline_part (pre @ ps) = first_inline_part ps"
  by (induction pre) simp_all

text \<open>
  C10. In the Netlify interpreter, when the first part with inline data among the parts
  of the first candidate (taken from \<open>response.candidates\<close>, or from
  \<open>response.response.candidates\<close> when the former is missing) has a missing or empty
  \<open>data\<close>, the result is the error \<open>Image data is empty\<close>, never a data URL.
\<close>

theorem netlify_empty_image_data:
  "(candidates r = Some (c # cs)
      \<or> candidates r = None \<and> response_response_candidates r = Some (c # cs))
   \<Longrightarrow> candidate_content c = Some ct \<Longrightarrow> parts ct = Some (pre @ p # post)
   \<Longrightarrow> list_all (\<lambda>q. inlineData q = None) pre \<Longrightarrow> inlineData p = Some d
   \<Longrightarrow> data d = None \<or> data d = Some []
   \<Longrightarrow> processGeminiResponse_netlify r = Inl (JsError ''Image data is empty'')"
proof -
  assume c: "candidates r = Some (c # cs)
      \<or> candidates r = None \<and> response_response_candidates r = Some (c # cs)"
    and ct: "candidate_content c = Some ct" and ps: "parts ct = Some (pre @ p # post)"
    and pre: "list_all (\<lambda>q. inlineData q = None) pre" and d: "inlineData p = Some d"
    and e: "data d = None \<or> data d = Some []"
  have fc: "first_candidate (case candidates r of Some cs \<Rightarrow> Some cs
                   | None \<Rightarrow> response_response_candidates r) = Some c"
    using c by (auto simp: first_candidate_def)
  have cp: "candidate_parts (Some c) = Some (pre @ p # post)"
    using ct ps by (simp add: candidate_parts_def)
  have fi: "first_inline_part (pre @ p # post) = Some (Inl (JsError ''Image data is empty''))"
    using pre d e by (auto simp: first_inline_part_skip)
  have ne: "(case pre @ p # post of [] \<Rightarrow> None | q # rest \<Rightarrow> first_inline_part (q # rest))
      = first_inline_part (pre @ p # post)"
    by (cases "pre @ p # post") simp_all
  show ?thesis
    unfolding processGeminiResponse_netlify_def Let_def fc cp
    using fi ne by (simp del: first_inline_part.simps)
qed

theorem netlify_empty_image_data_witness:
  "processGeminiResponse_netlify empty_data_response = Inl (JsError ''Image data is empty'')"
  using netlify_empty_image_data [of empty_data_response
      "\<lparr>candidate_content = Some
        \<lparr>parts = Some [\<lparr>inlineData = Some \<lparr>mimeType = Some ''image/png'', data = Some []\<rparr>,
                        part_text = None\<rparr>],
         content_json = ''{}''\<rparr>\<rparr>" "[]"
      "\<lparr>parts = Some [\<lparr>inlineData = Some \<lparr>mimeType = Some ''image/png'', data = Some []\<rparr>,
                        part_text = None\<rparr>],
         content_json = ''{}''\<rparr>" "[]"
      "\<lparr>inlineData = Some \<lparr>mimeType = Some ''image/png'', data = Some []\<rparr>, part_text = None\<rparr>"
      "[]" "\<lparr>mimeType = Some ''image/png'', data = Some []\<rparr>"]
  by (simp add: empty_data_response_def)

section \<open>The fallback controller\<close>

lemma vercel_failure_form:
  "processGeminiResponse_vercel r = Inl e \<Longrightarrow> \<exists>t. e = no_image_failure t"
  by (auto simp: processGeminiResponse_vercel_def no_image_failure_def NO_IMAGE_MARKER_def Let_def
      split: option.splits)

lemma no_image_failure_marked:
  "includes_str (message_or_json (no_image_failure t)) NO_IMAGE_MARKER"
  by (simp add: no_image_failure_def includes_str_prefix)

lemma vercel_failure_marked:
  "processGeminiResponse_vercel r = Inl e \<Longrightarrow> includes_str (message_or_json e) NO_IMAGE_MARKER"
  using vercel_failure_form [of r e] no_image_failure_marked by auto

lemma api_primary_no_image:
  assumes "imageParts urls = Inr ips"
    and "callGeminiWithRetry up (ips @ [TextPart prompt]) w = (Inr resp, w1)"
    and "processGeminiResponse_vercel resp = Inl e"
  shows "generateStyleImage_api processGeminiResponse_vercel up urls prompt w =
    (case extractStyle prompt of
       None \<Rightarrow> (Inl e, w1)
     | Some style \<Rightarrow>
         (case call_then_interpret processGeminiResponse_vercel up
                 (ips @ [TextPart (getFallbackPrompt style)]) w1 of
            (Inr u, w2) \<Rightarrow> (Inr u, w2)
          | (Inl fallbackError, w2) \<Rightarrow>
              (Inl (JsError
                 (''The AI model failed with both original and fallback prompts. Last error: ''
                  @ message_or_String fallbackError)), w2)))"
  using assms vercel_failure_marked [OF assms(3)]
  by (simp add: generateStyleImage_api_def call_then_interpret_def Let_def)

lemma extractStyle_style_prompt:
  "map (extractStyle \<circ> style_prompt) STYLES = map Some STYLES"
  by code_simp

text \<open>
  C6. \<open>extractStyle\<close> applied to the instruction text built for a style of the catalogue
  gives back that style, for each of the six styles. In the Vercel handler, when the
  primary attempt ends in the interpreter's no-image error and no style can be extracted
  from the prompt, \<open>generateStyleImage\<close> throws that same error and the world is the one
  left by the primary attempt: no fallback call is issued.
\<close>

theorem extractStyle_recovers_catalogue:
  "map (extractStyle \<circ> style_prompt) STYLES = map Some STYLES
   \<and> (extractStyle prompt = None \<and> imageParts urls = Inr ips
        \<and> callGeminiWithRetry up (ips @ [TextPart prompt]) w = (Inr resp, w1)
        \<and> processGeminiResponse_vercel resp = Inl e
      \<longrightarrow> generateStyleImage_api processGeminiResponse_vercel up urls prompt w = (Inl e, w1))"
proof (intro conjI impI)
  show "map (extractStyle \<circ> style_prompt) STYLES = map Some STYLES"
    by (rule extractStyle_style_prompt)
next
  assume a: "extractStyle prompt = None \<and> imageParts urls = Inr ips
        \<and> callGeminiWithRetry up (ips @ [TextPart prompt]) w = (Inr resp, w1)
        \<and> processGeminiResponse_vercel resp = Inl e"
  then show "generateStyleImage_api processGeminiResponse_vercel up urls prompt w = (Inl e, w1)"
    using api_primary_no_image [of urls ips up prompt w resp w1 e] by simp
qed

theorem extractStyle_recovers_catalogue_witness:
  "extractStyle ''Make it cosy'' = None
   \<and> generateStyleImage_api processGeminiResponse_vercel always_refuses
        [''data:image/png;base64,AAAA''] ''Make it cosy'' w0
      = (Inl (no_image_failure ''I cannot do that''),
         \<lparr>fetches = [],
          calls = [[InlineDataPart ''image/png'' ''AAAA'', TextPart ''Make it cosy'']],
          waits = []\<rparr>)"
proof -
  have h1: "extractStyle ''Make it cosy'' = None" by code_simp
  have h2: "imageParts [''data:image/png;base64,AAAA''] = Inr [InlineDataPart ''image/png'' ''AAAA'']"
    by code_simp
  have h3: "callGeminiWithRetry always_refuses
        ([InlineDataPart ''image/png'' ''AAAA''] @ [TextPart ''Make it cosy'']) w0
      = (Inr text_only_response,
         \<lparr>fetches = [],
          calls = [[InlineDataPart ''image/png'' ''AAAA'', TextPart ''Make it cosy'']],
          waits = []\<rparr>)"
    by (simp add: retry_cases Let_def attempt_outcome_def is_transient_def always_refuses_def w0_def)
  have h4: "processGeminiResponse_vercel text_only_response
      = Inl (no_image_failure ''I cannot do that'')"
    by code_simp
  from extractStyle_recovers_catalogue [of "''Make it cosy''" "[''data:image/png;base64,AAAA'']"
      "[InlineDataPart ''image/png'' ''AAAA'']" always_refuses w0 text_only_response
      "\<lparr>fetches = [],
          calls = [[InlineDataPart ''image/png'' ''AAAA'', TextPart ''Make it cosy'']],
          waits = []\<rparr>" "no_image_failure ''I cannot do that''"] h1 h2 h3 h4
  show ?thesis by blast
qed

text \<open>
  The fallback in the Vercel handler: after a no-image error on a prompt whose style is
  extracted, the call-then-interpret sequence runs once more with the fallback prompt,
  and its failure is reported as the failure of both prompts.
\<close>

lemma vercel_fallback_once:
  assumes "imageParts urls = Inr ips"
    and "callGeminiWithRetry up (ips @ [TextPart prompt]) w = (Inr resp, w1)"
    and "processGeminiResponse_vercel resp = Inl e"
    and "extractStyle prompt = Some style"
    and "call_then_interpret processGeminiResponse_vercel up
           (ips @ [TextPart (getFallbackPrompt style)]) w1 = (r2, w2)"
  shows "generateStyleImage_api processGeminiResponse_vercel up urls prompt w =
    ((case r2 of
        Inr u \<Rightarrow> Inr u
      | Inl fallbackError \<Rightarrow>
          Inl (JsError
            (''The AI model failed with both original and fallback prompts. Last error: ''
             @ message_or_String fallbackError))), w2)"
  using api_primary_no_image [OF assms(1,2,3)] assms(4,5)
  by (simp split: sum.splits)

lemma vercel_refused_twice:
  \<open>generateStyleImage_api processGeminiResponse_vercel always_refuses
        [''data:image/png;base64,AAAA''] (style_prompt ''Modern'') w0
   = (Inl (JsError ''The AI model failed with both original and fallback prompts. Last error: The AI model responded with text instead of an image: "I cannot do that"''),
      \<lparr>fetches = [],
       calls = [[InlineDataPart ''image/png'' ''AAAA'', TextPart (style_prompt ''Modern'')],
                [InlineDataPart ''image/png'' ''AAAA'', TextPart (getFallbackPrompt ''Modern'')]],
       waits = []\<rparr>)\<close>
  by code_simp

text \<open>
  C2. The Netlify handler on a response with text only, for the prompt of the style
  Modern: the style is extracted, the interpreter throws its no-image error, whose text
  is not the one \<open>generateStyleImage\<close> tests for; one upstream call is issued, no
  fallback is attempted, and the error is reported as an unrecoverable one.
\<close>

theorem netlify_no_image_skips_fallback:
  \<open>extractStyle (style_prompt ''Modern'') = Some ''Modern''
   \<and> processGeminiResponse_netlify text_only_response
       = Inl (JsError ''The AI model did not generate an image. Response: "I cannot do that"'')
   \<and> generateStyleImage_api processGeminiResponse_netlify always_refuses
        [''data:image/png;base64,AAAA''] (style_prompt ''Modern'') w0
      = (Inl (JsError ''The AI model failed to generate an image. Details: The AI model did not generate an image. Response: "I cannot do that"''),
         \<lparr>fetches = [],
          calls = [[InlineDataPart ''image/png'' ''AAAA'', TextPart (style_prompt ''Modern'')]],
          waits = []\<rparr>)\<close>
  by code_simp

section \<open>From the upstream to the session state\<close>

lemma match_data_url_prefix:
  "match_data_url u = Some x \<Longrightarrow> startsWith u ''data:image/''"
  by (simp add: match_data_url_def split: if_splits)

lemma imageParts_ok_prefix:
  "imageParts urls = Inr ips \<Longrightarrow> list_all (\<lambda>u. startsWith u ''data:image/'') urls"
proof (induction urls arbitrary: ips)
  case Nil then show ?case by simp
next
  case (Cons u urls)
  from Cons.prems obtain x where x: "match_data_url u = Some x"
    by (cases "match_data_url u") auto
  from Cons.prems x obtain ips' where "imageParts urls = Inr ips'"
    by (cases x; cases "imageParts urls") auto
  with Cons.IH x show ?case
    by (simp add: match_data_url_prefix del: startsWith.simps)
qed

lemma imageParts_bad:
  "\<not> list_all (\<lambda>u. match_data_url u \<noteq> None) urls
   \<Longrightarrow> imageParts urls = Inl (JsError INVALID_FORMAT_MESSAGE)"
  by (induction urls) (auto split: option.splits sum.splits)

lemma api_primary_other_failure:
  assumes "imageParts urls = Inr ips"
    and "callGeminiWithRetry up (ips @ [TextPart prompt]) w = (Inl e, w1)"
    and "\<not> includes_str (message_or_json e) NO_IMAGE_MARKER"
  shows "generateStyleImage_api interp up urls prompt w =
    (Inl (JsError (DETAILS_PREFIX @ message_or_json e)), w1)"
  using assms
  by (simp add: generateStyleImage_api_def call_then_interpret_def Let_def DETAILS_PREFIX_def)

lemma api_bad_image:
  "\<not> list_all (\<lambda>u. match_data_url u \<noteq> None) imgs
   \<Longrightarrow> generateStyleImage_api interp up imgs prompt w = (Inl (JsError INVALID_FORMAT_MESSAGE), w)"
  by (simp add: generateStyleImage_api_def imageParts_bad)

lemma handler_valid_post:
  assumes "imgs \<noteq> []" "prompt \<noteq> []" "list_all (\<lambda>u. startsWith u ''data:image/'') imgs"
  shows "handler interp up \<lparr>req_method = POST, req_images = imgs, req_prompt = prompt\<rparr> w =
    (case generateStyleImage_api interp up imgs prompt w of
       (Inr imageUrl, w') \<Rightarrow>
         (json_response 200
            \<lparr>body_success = Some True, body_imageUrl = Some imageUrl,
             body_message = Some ''Image generated successfully'', body_error = None\<rparr>, w')
     | (Inl e, w') \<Rightarrow>
         (json_response 500
            \<lparr>body_success = Some False, body_imageUrl = None,
             body_message = Some (case e of JsError m \<Rightarrow> m | JsValue j s \<Rightarrow> ''Unknown error occurred''),
             body_error = Some ''Image generation failed''\<rparr>, w'))"
  using assms by (simp add: handler_def Let_def split: prod.splits sum.splits del: startsWith.simps)

lemma service_try_api_failure:
  assumes "imgs \<noteq> []" "prompt \<noteq> []" "trim prompt \<noteq> []"
    and "list_all (\<lambda>u. startsWith u ''data:image/'') imgs"
    and "generateStyleImage_api interp up imgs prompt
           (w\<lparr>fetches := fetches w @ [\<lparr>req_method = POST, req_images = imgs, req_prompt = prompt\<rparr>]\<rparr>)
         = (Inl (JsError m), w')"
    and "m \<noteq> []"
  shows "service_try (api_fetch interp up) imgs prompt w
    = (Inl (JsError (''Image generation failed: '' @ m)), w')"
  using assms
  by (simp add: service_try_def api_fetch_def handler_valid_post json_response_def or_else_def
      template_def Let_def del: startsWith.simps)

lemma friendly_error_details:
  "friendly_error (JsError (''Image generation failed: '' @ DETAILS_PREFIX @ m)) =
     (if includes_str m ''IMAGE_GENERATION_NOT_SUPPORTED'' then JsError TECHNICAL_ISSUE_MESSAGE
      else if includes_str m ''Failed to fetch'' \<or> includes_str m ''NetworkError'' then
        JsError NETWORK_ERROR_MESSAGE
      else if includes_str m ''Server responded with status: 5'' then JsError SERVER_ERROR_MESSAGE
      else JsError (''Failed to generate image: Image generation failed: '' @ DETAILS_PREFIX @ m))"
  by (simp add: friendly_error_def DETAILS_PREFIX_def)

lemma friendly_error_is_Error: "friendly_error e = JsError (message_or_String (friendly_error e))"
  by (simp add: friendly_error_def Let_def)

lemma friendly_error_validation:
  "friendly_error (JsError ''At least one image is required for remodeling'')
     = JsError (''Failed to generate image: '' @ ''At least one image is required for remodeling'')"
  "friendly_error (JsError ''A prompt is required for image generation'')
     = JsError (''Failed to generate image: '' @ ''A prompt is required for image generation'')"
  "friendly_error (JsError ''All images must be valid data URLs'')
     = JsError (''Failed to generate image: '' @ ''All images must be valid data URLs'')"
  "friendly_error (JsError (''Image generation failed: '' @ INVALID_FORMAT_MESSAGE))
     = JsError (''Failed to generate image: '' @ ''Image generation failed: '' @ INVALID_FORMAT_MESSAGE)"
  by code_simp+

lemma first_attempt_final:
  assumes "up (calls w) ps = Inl e" "\<not> isInternalError e"
  shows "callGeminiWithRetry up ps w = (Inl e, w\<lparr>calls := calls w @ [ps]\<rparr>)"
  using assms by (simp add: retry_cases Let_def attempt_outcome_def is_transient_def)

lemma service_non_transient_failure:
  assumes imgs: "imgs \<noteq> []" "imageParts imgs = Inr ips"
    and fail: "up (calls w) (ips @ [TextPart (style_prompt style)]) = Inl e"
      "\<not> isInternalError e" "\<not> includes_str (message_or_json e) NO_IMAGE_MARKER"
  shows "generateStyleImage_service (api_fetch interp up) imgs (style_prompt style) w
    = (Inl (friendly_error
         (JsError (''Image generation failed: '' @ DETAILS_PREFIX @ message_or_json e))),
       w\<lparr>fetches := fetches w @ [\<lparr>req_method = POST, req_images = imgs,
                                     req_prompt = style_prompt style\<rparr>],
         calls := calls w @ [ips @ [TextPart (style_prompt style)]]\<rparr>)"
proof -
  let ?req = "\<lparr>req_method = POST, req_images = imgs, req_prompt = style_prompt style\<rparr>"
  let ?wf = "w\<lparr>fetches := fetches w @ [?req]\<rparr>"
  let ?ps = "ips @ [TextPart (style_prompt style)]"
  have c: "callGeminiWithRetry up ?ps ?wf = (Inl e, ?wf\<lparr>calls := calls ?wf @ [?ps]\<rparr>)"
    using fail(1,2) by (intro first_attempt_final) simp_all
  have api: "generateStyleImage_api interp up imgs (style_prompt style) ?wf
      = (Inl (JsError (DETAILS_PREFIX @ message_or_json e)), ?wf\<lparr>calls := calls ?wf @ [?ps]\<rparr>)"
    using imgs(2) c fail(3) by (rule api_primary_other_failure)
  have ne: "DETAILS_PREFIX @ message_or_json e \<noteq> []" by (simp add: DETAILS_PREFIX_def)
  have st: "service_try (api_fetch interp up) imgs (style_prompt style) w
      = (Inl (JsError (''Image generation failed: '' @ DETAILS_PREFIX @ message_or_json e)),
         ?wf\<lparr>calls := calls ?wf @ [?ps]\<rparr>)"
    using imgs(1) style_prompt_not_blank [of style] imageParts_ok_prefix [OF imgs(2)] api ne
    by (intro service_try_api_failure) simp_all
  show ?thesis by (simp add: generateStyleImage_service_def st)
qed

text \<open>
  C5, as amended. The wrapper stops at the first attempt that is not a transient
  failure, be it the first (one call, no delay) or the second (two calls, one delay of
  1000), and throws or returns its outcome unmodified; after two transient failures its
  result is the outcome of the third call, whatever it is. For a per-style task whose
  images are well formed and whose first upstream call fails with an error that is
  neither classified internal nor a no-image failure (its text does not contain the
  no-image marker), exactly one request is sent to the backend and one to the upstream,
  no fallback prompt is tried, and the style's entry becomes failed. Its reason is what
  the service's \<open>catch\<close> clause makes of the backend's message; when the error's text
  contains none of the texts that clause looks for, the reason is that text after the
  prefixes of the service, the handler and the backend.
\<close>

theorem non_transient_failure_propagates:
  "(\<not> is_transient (attempt_outcome up ps w 1)
      \<longrightarrow> callGeminiWithRetry up ps w = (attempt_outcome up ps w 1, w\<lparr>calls := calls w @ [ps]\<rparr>))
   \<and> (is_transient (attempt_outcome up ps w 1) \<and> \<not> is_transient (attempt_outcome up ps w 2)
      \<longrightarrow> callGeminiWithRetry up ps w
            = (attempt_outcome up ps w 2,
               w\<lparr>calls := calls w @ [ps, ps], waits := waits w @ [1000]\<rparr>))
   \<and> (is_transient (attempt_outcome up ps w 1) \<and> is_transient (attempt_outcome up ps w 2)
      \<longrightarrow> callGeminiWithRetry up ps w
            = (attempt_outcome up ps w 3,
               w\<lparr>calls := calls w @ [ps, ps, ps], waits := waits w @ [1000, 2000]\<rparr>))
   \<and> (uploadedImages a \<noteq> [] \<and> imageParts (uploadedImages a) = Inr ips
        \<and> up (calls w) (ips @ [TextPart (style_prompt style)]) = Inl e
        \<and> \<not> isInternalError e \<and> \<not> includes_str (message_or_json e) NO_IMAGE_MARKER
      \<longrightarrow> processStyle (generateStyleImage_service (api_fetch interp up)) style (a, w)
            = (a\<lparr>generatedImages := (generatedImages a)
                  (style \<mapsto> \<lparr>status = StatusError, url = None,
                      error = Some (message_or_String (friendly_error (JsError
                         (''Image generation failed: '' @ DETAILS_PREFIX @ message_or_json e))))\<rparr>)\<rparr>,
               w\<lparr>fetches := fetches w @ [\<lparr>req_method = POST, req_images = uploadedImages a,
                                            req_prompt = style_prompt style\<rparr>],
                 calls := calls w @ [ips @ [TextPart (style_prompt style)]]\<rparr>)
          \<and> (\<not> includes_str (message_or_json e) ''IMAGE_GENERATION_NOT_SUPPORTED''
               \<and> \<not> includes_str (message_or_json e) ''Failed to fetch''
               \<and> \<not> includes_str (message_or_json e) ''NetworkError''
               \<and> \<not> includes_str (message_or_json e) ''Server responded with status: 5''
             \<longrightarrow> message_or_String (friendly_error (JsError
                    (''Image generation failed: '' @ DETAILS_PREFIX @ message_or_json e)))
                 = ''Failed to generate image: Image generation failed: '' @ DETAILS_PREFIX
                     @ message_or_json e))"
proof (intro conjI impI)
  assume "\<not> is_transient (attempt_outcome up ps w 1)"
  then show "callGeminiWithRetry up ps w = (attempt_outcome up ps w 1, w\<lparr>calls := calls w @ [ps]\<rparr>)"
    by (simp add: retry_cases Let_def)
next
  assume "is_transient (attempt_outcome up ps w 1) \<and> \<not> is_transient (attempt_outcome up ps w 2)"
  then show "callGeminiWithRetry up ps w
      = (attempt_outcome up ps w 2,
         w\<lparr>calls := calls w @ [ps, ps], waits := waits w @ [1000]\<rparr>)"
    by (simp add: retry_cases Let_def)
next
  assume "is_transient (attempt_outcome up ps w 1) \<and> is_transient (attempt_outcome up ps w 2)"
  then show "callGeminiWithRetry up ps w
      = (attempt_outcome up ps w 3,
         w\<lparr>calls := calls w @ [ps, ps, ps], waits := waits w @ [1000, 2000]\<rparr>)"
    by (simp add: retry_cases Let_def)
next
  assume h: "uploadedImages a \<noteq> [] \<and> imageParts (uploadedImages a) = Inr ips
        \<and> up (calls w) (ips @ [TextPart (style_prompt style)]) = Inl e
        \<and> \<not> isInternalError e \<and> \<not> includes_str (message_or_json e) NO_IMAGE_MARKER"
  then have svc: "generateStyleImage_service (api_fetch interp up) (uploadedImages a)
        (style_prompt style) w
    = (Inl (friendly_error
         (JsError (''Image generation failed: '' @ DETAILS_PREFIX @ message_or_json e))),
       w\<lparr>fetches := fetches w @ [\<lparr>req_method = POST, req_images = uploadedImages a,
                                     req_prompt = style_prompt style\<rparr>],
         calls := calls w @ [ips @ [TextPart (style_prompt style)]]\<rparr>)"
    by (intro service_non_transient_failure) simp_all
  have fe: "\<And>x. (case friendly_error x of JsError m \<Rightarrow> m
                   | JsValue j t \<Rightarrow> ''An unknown error occurred.'')
        = message_or_String (friendly_error x)"
    by (subst (1) friendly_error_is_Error) simp
  show "processStyle (generateStyleImage_service (api_fetch interp up)) style (a, w)
            = (a\<lparr>generatedImages := (generatedImages a)
                  (style \<mapsto> \<lparr>status = StatusError, url = None,
                      error = Some (message_or_String (friendly_error (JsError
                         (''Image generation failed: '' @ DETAILS_PREFIX @ message_or_json e))))\<rparr>)\<rparr>,
               w\<lparr>fetches := fetches w @ [\<lparr>req_method = POST, req_images = uploadedImages a,
                                            req_prompt = style_prompt style\<rparr>],
                 calls := calls w @ [ips @ [TextPart (style_prompt style)]]\<rparr>)"
    unfolding processStyle_def prod.case svc sum.case Let_def fe ..
  assume "\<not> includes_str (message_or_json e) ''IMAGE_GENERATION_NOT_SUPPORTED''
               \<and> \<not> includes_str (message_or_json e) ''Failed to fetch''
               \<and> \<not> includes_str (message_or_json e) ''NetworkError''
               \<and> \<not> includes_str (message_or_json e) ''Server responded with status: 5''"
  then show "message_or_String (friendly_error (JsError
                    (''Image generation failed: '' @ DETAILS_PREFIX @ message_or_json e)))
                 = ''Failed to generate image: Image generation failed: '' @ DETAILS_PREFIX
                     @ message_or_json e"
    by (simp only: friendly_error_details) simp
qed

theorem non_transient_failure_propagates_witness:
  "callGeminiWithRetry transient_then_quota [TextPart ''p''] w0
      = (Inl (JsError ''quota exceeded''),
         \<lparr>fetches = [], calls = [[TextPart ''p''], [TextPart ''p'']], waits = [1000]\<rparr>)
   \<and> map_option error (generatedImages (fst (processStyle
          (generateStyleImage_service (api_fetch processGeminiResponse_vercel quota_upstream))
          ''Modern'' (a0, w0))) ''Modern'')
      = Some (Some (''Failed to generate image: Image generation failed: '' @ DETAILS_PREFIX
                     @ ''quota exceeded''))
   \<and> snd (processStyle
          (generateStyleImage_service (api_fetch processGeminiResponse_vercel quota_upstream))
          ''Modern'' (a0, w0))
      = \<lparr>fetches = [\<lparr>req_method = POST, req_images = [''data:image/png;base64,AAAA''],
                      req_prompt = style_prompt ''Modern''\<rparr>],
         calls = [[InlineDataPart ''image/png'' ''AAAA'', TextPart (style_prompt ''Modern'')]],
         waits = []\<rparr>"
proof -
  have h1: "uploadedImages a0 \<noteq> []" by (simp add: a0_def)
  have h2: "imageParts (uploadedImages a0) = Inr [InlineDataPart ''image/png'' ''AAAA'']"
    by code_simp
  have h3: "quota_upstream (calls w0)
        ([InlineDataPart ''image/png'' ''AAAA''] @ [TextPart (style_prompt ''Modern'')])
      = Inl (JsError ''quota exceeded'')"
    by (simp add: quota_upstream_def)
  have h4: "\<not> isInternalError (JsError ''quota exceeded'')" by code_simp
  have h5: "\<not> includes_str (message_or_json (JsError ''quota exceeded'')) NO_IMAGE_MARKER"
    by code_simp
  have h6: "\<not> includes_str (message_or_json (JsError ''quota exceeded'')) ''IMAGE_GENERATION_NOT_SUPPORTED''
      \<and> \<not> includes_str (message_or_json (JsError ''quota exceeded'')) ''Failed to fetch''
      \<and> \<not> includes_str (message_or_json (JsError ''quota exceeded'')) ''NetworkError''
      \<and> \<not> includes_str (message_or_json (JsError ''quota exceeded'')) ''Server responded with status: 5''"
    by code_simp
  have t1: "\<not> is_transient (attempt_outcome quota_upstream [TextPart ''p''] w0 1)"
    by code_simp
  from non_transient_failure_propagates [of quota_upstream "[TextPart ''p'']" w0 a0
      "[InlineDataPart ''image/png'' ''AAAA'']" "''Modern''" "JsError ''quota exceeded''"
      processGeminiResponse_vercel] h1 h2 h3 h4 h5 h6 t1
  have first: "processStyle (generateStyleImage_service (api_fetch processGeminiResponse_vercel quota_upstream))
          ''Modern'' (a0, w0)
      = (a0\<lparr>generatedImages := (generatedImages a0)
            (''Modern'' \<mapsto> \<lparr>status = StatusError, url = None,
               error = Some (''Failed to generate image: Image generation failed: '' @ DETAILS_PREFIX
                     @ message_or_json (JsError ''quota exceeded''))\<rparr>)\<rparr>,
         w0\<lparr>fetches := fetches w0 @ [\<lparr>req_method = POST, req_images = uploadedImages a0,
                                       req_prompt = style_prompt ''Modern''\<rparr>],
            calls := calls w0 @ [[InlineDataPart ''image/png'' ''AAAA''] @ [TextPart (style_prompt ''Modern'')]]\<rparr>)"
    by simp
  have m: "is_transient (attempt_outcome transient_then_quota [TextPart ''p''] w0 1)
      \<and> \<not> is_transient (attempt_outcome transient_then_quota [TextPart ''p''] w0 2)"
    by code_simp
  have o2: "attempt_outcome transient_then_quota [TextPart ''p''] w0 2 = Inl (JsError ''quota exceeded'')"
    by code_simp
  from non_transient_failure_propagates [of transient_then_quota "[TextPart ''p'']" w0] m
  have second: "callGeminiWithRetry transient_then_quota [TextPart ''p''] w0
      = (attempt_outcome transient_then_quota [TextPart ''p''] w0 2,
         w0\<lparr>calls := calls w0 @ [[TextPart ''p''], [TextPart ''p'']], waits := waits w0 @ [1000]\<rparr>)"
    by blast
  from first second o2 show ?thesis by (simp add: a0_def w0_def)
qed

text \<open>
  The claim as first stated fails: an upstream error that is neither internal nor a
  no-image failure, and whose text contains \<open>NetworkError\<close>, ends in the service's canned
  network message, which does not carry the error's text.
\<close>

theorem non_transient_failure_counterexample:
  "\<not> isInternalError (JsError ''NetworkError when attempting to reach the model'')
   \<and> \<not> includes_str ''NetworkError when attempting to reach the model'' NO_IMAGE_MARKER
   \<and> map_option error (generatedImages (fst (processStyle
          (generateStyleImage_service (api_fetch processGeminiResponse_vercel network_error_upstream))
          ''Modern'' (a0, w0))) ''Modern'')
      = Some (Some NETWORK_ERROR_MESSAGE)
   \<and> \<not> includes_str NETWORK_ERROR_MESSAGE ''NetworkError when attempting to reach the model''"
  by code_simp

text \<open>
  C8, as amended. A request with no image, with an empty or blank prompt, or with an
  image URL that the data-URL expression does not match, ends in an error; no upstream
  call is issued and nothing is waited for. With no image, a blank prompt or an image
  that does not start with \<open>data:image/\<close>, nothing is sent to the backend either; an
  image that has this prefix but not the full shape is rejected by the backend, after
  the one request that carries it.
\<close>

theorem invalid_input_rejected:
  "imageDataUrls = [] \<or> prompt = [] \<or> trim prompt = []
     \<or> \<not> list_all (\<lambda>u. match_data_url u \<noteq> None) imageDataUrls
   \<Longrightarrow> (let (r, w') = generateStyleImage_service (api_fetch interp up) imageDataUrls prompt w
        in r = Inl (JsError (''Failed to generate image: '' @
                 (if imageDataUrls = [] then ''At least one image is required for remodeling''
                  else if prompt = [] \<or> trim prompt = [] then
                    ''A prompt is required for image generation''
                  else if \<not> list_all (\<lambda>u. startsWith u ''data:image/'') imageDataUrls then
                    ''All images must be valid data URLs''
                  else ''Image generation failed: '' @ INVALID_FORMAT_MESSAGE)))
           \<and> calls w' = calls w \<and> waits w' = waits w
           \<and> fetches w' =
               (if imageDataUrls = [] \<or> prompt = [] \<or> trim prompt = []
                   \<or> \<not> list_all (\<lambda>u. startsWith u ''data:image/'') imageDataUrls
                then fetches w
                else fetches w @ [\<lparr>req_method = POST, req_images = imageDataUrls,
                                    req_prompt = prompt\<rparr>]))"
proof -
  assume bad: "imageDataUrls = [] \<or> prompt = [] \<or> trim prompt = []
     \<or> \<not> list_all (\<lambda>u. match_data_url u \<noteq> None) imageDataUrls"
  show ?thesis
  proof (cases "imageDataUrls = [] \<or> prompt = [] \<or> trim prompt = []
                   \<or> \<not> list_all (\<lambda>u. startsWith u ''data:image/'') imageDataUrls")
    case True
    then show ?thesis
      by (auto simp add: generateStyleImage_service_def service_try_def friendly_error_validation
          simp del: startsWith.simps)
  next
    case False
    then have ok: "imageDataUrls \<noteq> []" "prompt \<noteq> []" "trim prompt \<noteq> []"
      "list_all (\<lambda>u. startsWith u ''data:image/'') imageDataUrls" by simp_all
    with bad have nm: "\<not> list_all (\<lambda>u. match_data_url u \<noteq> None) imageDataUrls" by simp
    let ?wf = "w\<lparr>fetches := fetches w @ [\<lparr>req_method = POST, req_images = imageDataUrls,
                                    req_prompt = prompt\<rparr>]\<rparr>"
    have api: "generateStyleImage_api interp up imageDataUrls prompt ?wf
        = (Inl (JsError INVALID_FORMAT_MESSAGE), ?wf)"
      using nm by (rule api_bad_image)
    have ne: "INVALID_FORMAT_MESSAGE \<noteq> []" by (simp add: INVALID_FORMAT_MESSAGE_def)
    have st: "service_try (api_fetch interp up) imageDataUrls prompt w
        = (Inl (JsError (''Image generation failed: '' @ INVALID_FORMAT_MESSAGE)), ?wf)"
      using ok api ne by (rule service_try_api_failure)
    show ?thesis
      using ok unfolding generateStyleImage_service_def st prod.case sum.case Let_def
        friendly_error_validation
      by (simp del: startsWith.simps)
  qed
qed

theorem invalid_input_rejected_witness:
  "\<not> list_all (\<lambda>u. match_data_url u \<noteq> None) [''data:image/png'']
   \<and> generateStyleImage_service (api_fetch processGeminiResponse_vercel always_refuses)
        [''data:image/png''] ''Modern look'' w0
      = (Inl (JsError (''Failed to generate image: Image generation failed: '' @ INVALID_FORMAT_MESSAGE)),
         \<lparr>fetches = [\<lparr>req_method = POST, req_images = [''data:image/png''],
                        req_prompt = ''Modern look''\<rparr>],
          calls = [], waits = []\<rparr>)
   \<and> generateStyleImage_service (api_fetch processGeminiResponse_vercel always_refuses)
        [] ''Modern look'' w0
      = (Inl (JsError ''Failed to generate image: At least one image is required for remodeling''), w0)"
proof -
  have h: "\<not> list_all (\<lambda>u. match_data_url u \<noteq> None) [''data:image/png'']" by code_simp
  have p: "''Modern look'' \<noteq> [] \<and> trim ''Modern look'' \<noteq> []
      \<and> list_all (\<lambda>u. startsWith u ''data:image/'') [''data:image/png'']" by code_simp
  obtain r w' where rw: "generateStyleImage_service (api_fetch processGeminiResponse_vercel always_refuses)
        [''data:image/png''] ''Modern look'' w0 = (r, w')"
    by (cases "generateStyleImage_service (api_fetch processGeminiResponse_vercel always_refuses)
        [''data:image/png''] ''Modern look'' w0") simp
  from invalid_input_rejected [of "[''data:image/png'']" "''Modern look''" processGeminiResponse_vercel
      always_refuses w0] h p rw
  have r: "r = Inl (JsError (''Failed to generate image: Image generation failed: '' @ INVALID_FORMAT_MESSAGE))"
    and w': "calls w' = [] \<and> waits w' = []
      \<and> fetches w' = [\<lparr>req_method = POST, req_images = [''data:image/png''],
                        req_prompt = ''Modern look''\<rparr>]"
    by (simp_all add: w0_def)
  from w' have weq: "w' = \<lparr>fetches = [\<lparr>req_method = POST, req_images = [''data:image/png''],
                        req_prompt = ''Modern look''\<rparr>], calls = [], waits = []\<rparr>"
    by (cases w') simp
  obtain r2 w2 where rw2: "generateStyleImage_service (api_fetch processGeminiResponse_vercel always_refuses)
        [] ''Modern look'' w0 = (r2, w2)"
    by (cases "generateStyleImage_service (api_fetch processGeminiResponse_vercel always_refuses)
        [] ''Modern look'' w0") simp
  from invalid_input_rejected [of "[]" "''Modern look''" processGeminiResponse_vercel
      always_refuses w0] rw2
  have r2: "r2 = Inl (JsError ''Failed to generate image: At least one image is required for remodeling'')"
    and w2: "calls w2 = calls w0 \<and> waits w2 = waits w0 \<and> fetches w2 = fetches w0"
    by simp_all
  from w2 have w2eq: "w2 = w0" by (cases w2; cases w0) simp
  from h rw r weq rw2 r2 w2eq show ?thesis by simp
qed

text \<open>
  The claim as first stated fails: \<open>data:image/png\<close> does not have the shape of a data
  URL, and the service sends the request to the backend.
\<close>

theorem invalid_input_counterexample:
  "match_data_url ''data:image/png'' = None
   \<and> fetches (snd (generateStyleImage_service (api_fetch processGeminiResponse_vercel always_refuses)
        [''data:image/png''] ''Modern look'' w0))
      = [\<lparr>req_method = POST, req_images = [''data:image/png''], req_prompt = ''Modern look''\<rparr>]"
  by code_simp

section \<open>The round: open calls, workers and user events\<close>

text \<open>The two phases of a call, run one after the other, are the call.\<close>

lemma service_two_phase:
  "(case service_begin imageDataUrls prompt w of (t, w1) \<Rightarrow> service_settle fetch t w1)
     = generateStyleImage_service fetch imageDataUrls prompt w"
  by (simp add: service_begin_def service_settle_def generateStyleImage_service_def
      service_try_def read_response_def Let_def
      split: prod.splits sum.splits option.splits del: startsWith.simps)

lemma processStyle_two_phase:
  "(case service_begin (uploadedImages a) (style_prompt style) w of
      (t, w1) \<Rightarrow> processStyle_settle fetch style t (a, w1))
     = processStyle (generateStyleImage_service fetch) style (a, w)"
proof -
  obtain t w1 where b: "service_begin (uploadedImages a) (style_prompt style) w = (t, w1)"
    by (cases "service_begin (uploadedImages a) (style_prompt style) w") simp
  have s: "service_settle fetch t w1
      = generateStyleImage_service fetch (uploadedImages a) (style_prompt style) w"
    using service_two_phase [where imageDataUrls = "uploadedImages a"
        and prompt = "style_prompt style" and w = w and fetch = fetch] b by simp
  show ?thesis
    unfolding b prod.case processStyle_settle_def processStyle_def s
    by (simp add: settle_entry_def Let_def split: prod.splits sum.splits)
qed

lemma start_call_fields [simp]:
  "workers (start_call style ow s) = workers s"
  "stylesQueue (start_call style ow s) = stylesQueue s"
  "sched_app (start_call style ow s) = sched_app s"
  "open_calls (start_call style ow s) = open_calls s
     @ [\<lparr>call_style = style,
         call_ticket = fst (service_begin (uploadedImages (sched_app s)) (style_prompt style)
                              (sched_world s)),
         call_owner = ow\<rparr>]"
  by (simp_all add: start_call_def split: prod.splits)

lemma settle_call_fields [simp]:
  "workers (settle_call fetch c s) = workers s"
  "stylesQueue (settle_call fetch c s) = stylesQueue s"
  "open_calls (settle_call fetch c s) = remove1 c (open_calls s)"
  "uploadedImages (sched_app (settle_call fetch c s)) = uploadedImages (sched_app s)"
  by (simp_all add: settle_call_def processStyle_settle_def split: prod.splits)

lemma settle_entry_terminal: "is_terminal (Some (settle_entry r))"
  by (cases r) (simp_all add: settle_entry_def is_terminal_def Let_def)

lemma settle_call_entry:
  "is_terminal (generatedImages (sched_app (settle_call fetch c s)) (call_style c))"
  by (simp add: settle_call_def processStyle_settle_def settle_entry_terminal split: prod.splits)

lemma settle_call_frame:
  "S \<noteq> call_style c
   \<Longrightarrow> generatedImages (sched_app (settle_call fetch c s)) S = generatedImages (sched_app s) S"
  by (simp add: settle_call_def processStyle_settle_def split: prod.splits)

lemma round_step_length [simp]:
  "length (workers (round_step fetch ev s)) = length (workers s)"
  by (cases ev) (simp_all add: round_step_def split: worker.splits list.splits option.splits)

lemma run_round_length [simp]:
  "length (workers (run_round fetch sch s)) = length (workers s)"
  unfolding run_round_def by (induction sch arbitrary: s) simp_all

lemma owner_ids_append:
  "owner_ids (cs @ [c])
     = owner_ids cs @ (case call_owner c of Worker i \<Rightarrow> [i] | Regeneration \<Rightarrow> [])"
  by (induction cs) (simp_all split: owner.splits)

lemma find_owned:
  "i \<in> set (owner_ids cs)
   \<Longrightarrow> \<exists>c. List.find (\<lambda>c. call_owner c = Worker i) cs = Some c"
  by (induction cs) (auto split: owner.splits)

lemma find_Some_mem:
  "List.find P cs = Some c \<Longrightarrow> c \<in> set cs \<and> P c"
  by (induction cs) (auto split: if_splits)

lemma owner_ids_mem:
  "c \<in> set cs \<Longrightarrow> call_owner c = Worker i \<Longrightarrow> i \<in> set (owner_ids cs)"
  by (induction cs) (auto split: owner.splits)

lemma owner_ids_remove1_worker:
  "distinct (owner_ids cs) \<Longrightarrow> c \<in> set cs \<Longrightarrow> call_owner c = Worker i
   \<Longrightarrow> owner_ids (remove1 c cs) = remove1 i (owner_ids cs)"
proof (induction cs)
  case Nil then show ?case by simp
next
  case (Cons x xs)
  show ?case
  proof (cases "x = c")
    case True
    with Cons.prems show ?thesis by simp
  next
    case False
    with Cons.prems have mem: "c \<in> set xs" by simp
    then have i: "i \<in> set (owner_ids xs)" using Cons.prems(3) by (rule owner_ids_mem)
    show ?thesis
    proof (cases "call_owner x")
      case (Worker j)
      with Cons.prems(1) i have "j \<noteq> i" by auto
      with Worker False Cons.IH mem Cons.prems show ?thesis by simp
    next
      case Regeneration
      with False Cons.IH mem Cons.prems show ?thesis by simp
    qed
  qed
qed

lemma owner_ids_remove1_regeneration:
  "call_owner c = Regeneration \<Longrightarrow> owner_ids (remove1 c cs) = owner_ids cs"
  by (induction cs) (auto split: owner.splits)

lemma owned_count: "length (filter (\<lambda>c. call_owner c \<noteq> Regeneration) cs) = length (owner_ids cs)"
  by (induction cs) (simp_all split: owner.splits)

lemma owner_ids_Nil: "owner_ids cs = [] \<Longrightarrow> c \<in> set cs \<Longrightarrow> call_owner c = Regeneration"
  by (induction cs) (auto split: owner.splits)



lemma calls_match_workersI:
  assumes "owner_ids (open_calls s') = ids" "workers s' = ws" "distinct ids"
    and "\<And>j. j \<in> set ids \<Longrightarrow> j < length ws \<and> is_awaiting (ws ! j)"
    and "\<And>j. j < length ws \<Longrightarrow> is_awaiting (ws ! j) \<Longrightarrow> j \<in> set ids"
  shows "calls_match_workers s'"
  unfolding calls_match_workers_def assms(1) assms(2)
  using assms(3-5) by blast

lemma calls_match_workersD:
  assumes "calls_match_workers s"
  shows "distinct (owner_ids (open_calls s))"
    and "\<And>j. j \<in> set (owner_ids (open_calls s)) \<Longrightarrow> j < length (workers s)"
    and "\<And>j. j \<in> set (owner_ids (open_calls s)) \<Longrightarrow> is_awaiting (workers s ! j)"
    and "\<And>j. j < length (workers s) \<Longrightarrow> is_awaiting (workers s ! j)
            \<Longrightarrow> j \<in> set (owner_ids (open_calls s))"
  using assms unfolding calls_match_workers_def by blast+

lemma step_exit:
  "i < length (workers s) \<Longrightarrow> workers s ! i = AtLoopHead \<Longrightarrow> stylesQueue s = []
   \<Longrightarrow> round_step fetch (Step i) s = s\<lparr>workers := (workers s)[i := Exited]\<rparr>"
  by (simp add: round_step_def)

lemma step_skip:
  "i < length (workers s) \<Longrightarrow> workers s ! i = AtLoopHead \<Longrightarrow> stylesQueue s = [] # rest
   \<Longrightarrow> round_step fetch (Step i) s = s\<lparr>stylesQueue := rest\<rparr>"
  by (simp add: round_step_def)

lemma step_shift:
  "i < length (workers s) \<Longrightarrow> workers s ! i = AtLoopHead \<Longrightarrow> stylesQueue s = style # rest
   \<Longrightarrow> style \<noteq> []
   \<Longrightarrow> round_step fetch (Step i) s
       = start_call style (Worker i)
           (s\<lparr>stylesQueue := rest, workers := (workers s)[i := Awaiting style]\<rparr>)"
  by (simp add: round_step_def)

lemma step_settle:
  "i < length (workers s) \<Longrightarrow> workers s ! i = Awaiting style
   \<Longrightarrow> List.find (\<lambda>c. call_owner c = Worker i) (open_calls s) = Some c
   \<Longrightarrow> round_step fetch (Step i) s
       = (settle_call fetch c s)\<lparr>workers := (workers s)[i := AtLoopHead]\<rparr>"
  by (simp add: round_step_def)

lemma step_idle:
  "\<not> i < length (workers s) \<or> workers s ! i = Exited \<Longrightarrow> round_step fetch (Step i) s = s"
  by (auto simp: round_step_def)

lemma calls_match_workers_worker_step:
  assumes inv: "calls_match_workers s"
  shows "calls_match_workers (round_step fetch (Step i) s)"
proof (cases "i < length (workers s) \<and> workers s ! i \<noteq> Exited")
  case False
  then show ?thesis using inv step_idle [of i s fetch] by auto
next
  case True
  then have inb: "i < length (workers s)" and ne: "workers s ! i \<noteq> Exited" by simp_all
  note D = calls_match_workersD [OF inv]
  let ?ids = "owner_ids (open_calls s)"
  show ?thesis
  proof (cases "workers s ! i")
    case Exited
    with ne show ?thesis by simp
  next
    case AtLoopHead
    have ni: "i \<notin> set ?ids"
    proof
      assume "i \<in> set ?ids"
      then have "is_awaiting (workers s ! i)" by (rule D(3))
      with AtLoopHead show False by simp
    qed
    show ?thesis
    proof (cases "stylesQueue s")
      case Nil
      show ?thesis
        unfolding step_exit [OF inb AtLoopHead Nil]
      proof (rule calls_match_workersI [where ids = ?ids and ws = "(workers s)[i := Exited]"])
        show "distinct ?ids" by (rule D(1))
      next
        fix j assume j: "j \<in> set ?ids"
        then have "j \<noteq> i" using ni by auto
        with D(2) [OF j] D(3) [OF j]
        show "j < length ((workers s)[i := Exited]) \<and> is_awaiting ((workers s)[i := Exited] ! j)"
          by simp
      next
        fix j assume j: "j < length ((workers s)[i := Exited])"
          and a: "is_awaiting ((workers s)[i := Exited] ! j)"
        have "j \<noteq> i" using a j by (auto simp: nth_list_update)
        with j a show "j \<in> set ?ids" by (intro D(4)) simp_all
      qed simp_all
    next
      case (Cons style rest)
      show ?thesis
      proof (cases "style = []")
        case True
        with Cons have q: "stylesQueue s = [] # rest" by simp
        show ?thesis
          unfolding step_skip [OF inb AtLoopHead q]
          using inv by (simp add: calls_match_workers_def)
      next
        case False
        show ?thesis
          unfolding step_shift [OF inb AtLoopHead Cons False]
        proof (rule calls_match_workersI [where ids = "?ids @ [i]"
              and ws = "(workers s)[i := Awaiting style]"])
          show "distinct (?ids @ [i])" using D(1) ni by simp
        next
          fix j assume j: "j \<in> set (?ids @ [i])"
          show "j < length ((workers s)[i := Awaiting style])
              \<and> is_awaiting ((workers s)[i := Awaiting style] ! j)"
          proof (cases "j = i")
            case True
            with inb show ?thesis by simp
          next
            case False
            with j have j': "j \<in> set ?ids" by simp
            with False D(2) [OF j'] D(3) [OF j'] show ?thesis by simp
          qed
        next
          fix j assume j: "j < length ((workers s)[i := Awaiting style])"
            and a: "is_awaiting ((workers s)[i := Awaiting style] ! j)"
          show "j \<in> set (?ids @ [i])"
          proof (cases "j = i")
            case True
            then show ?thesis by simp
          next
            case False
            with j a have "j \<in> set ?ids" by (intro D(4)) simp_all
            then show ?thesis by simp
          qed
        qed (simp_all add: owner_ids_append)
      qed
    qed
  next
    case (Awaiting style)
    have "i \<in> set ?ids" using inb Awaiting by (intro D(4)) simp_all
    then obtain c where f: "List.find (\<lambda>c. call_owner c = Worker i) (open_calls s) = Some c"
      using find_owned by blast
    have c: "c \<in> set (open_calls s)" "call_owner c = Worker i"
      using find_Some_mem [OF f] by simp_all
    have ids: "owner_ids (remove1 c (open_calls s)) = remove1 i ?ids"
      using D(1) c by (rule owner_ids_remove1_worker)
    show ?thesis
      unfolding step_settle [OF inb Awaiting f]
    proof (rule calls_match_workersI [where ids = "remove1 i ?ids"
          and ws = "(workers s)[i := AtLoopHead]"])
      show "distinct (remove1 i ?ids)" using D(1) by simp
    next
      fix j assume j: "j \<in> set (remove1 i ?ids)"
      then have j': "j \<in> set ?ids" and "j \<noteq> i" using D(1) by simp_all
      with D(2) [OF j'] D(3) [OF j']
      show "j < length ((workers s)[i := AtLoopHead])
          \<and> is_awaiting ((workers s)[i := AtLoopHead] ! j)" by simp
    next
      fix j assume j: "j < length ((workers s)[i := AtLoopHead])"
        and a: "is_awaiting ((workers s)[i := AtLoopHead] ! j)"
      have ji: "j \<noteq> i" using a j by (auto simp: nth_list_update)
      with j a have "j \<in> set ?ids" by (intro D(4)) simp_all
      with ji show "j \<in> set (remove1 i ?ids)" using D(1) by simp
    qed (simp_all add: ids)
  qed
qed

lemma shake_calls:
  "owner_ids (open_calls (round_step fetch (Shake style) s)) = owner_ids (open_calls s)
   \<and> workers (round_step fetch (Shake style) s) = workers s
   \<and> stylesQueue (round_step fetch (Shake style) s) = stylesQueue s"
  by (simp add: round_step_def owner_ids_append)

lemma settle_calls:
  "owner_ids (open_calls (round_step fetch (Settle style) s)) = owner_ids (open_calls s)
   \<and> workers (round_step fetch (Settle style) s) = workers s
   \<and> stylesQueue (round_step fetch (Settle style) s) = stylesQueue s"
proof (cases "List.find (\<lambda>c. call_owner c = Regeneration \<and> call_style c = style) (open_calls s)")
  case None
  then show ?thesis by (simp add: round_step_def)
next
  case (Some c)
  then have "call_owner c = Regeneration" using find_Some_mem [OF Some] by simp
  then show ?thesis using Some
    by (simp add: round_step_def owner_ids_remove1_regeneration)
qed

lemma calls_match_workers_step:
  assumes "calls_match_workers s"
  shows "calls_match_workers (round_step fetch ev s)"
proof (cases ev)
  case (Step i)
  then show ?thesis using assms by (simp add: calls_match_workers_worker_step)
next
  case (Shake style)
  then show ?thesis using assms shake_calls [of fetch style s]
    by (simp add: calls_match_workers_def)
next
  case (Settle style)
  then show ?thesis using assms settle_calls [of fetch style s]
    by (simp add: calls_match_workers_def)
qed

lemma calls_match_workers_run:
  "calls_match_workers s \<Longrightarrow> calls_match_workers (run_round fetch sch s)"
  unfolding run_round_def
  by (induction sch arbitrary: s) (simp_all add: calls_match_workers_step)

lemma calls_match_workers_start: "calls_match_workers (start_round a w)"
  by (simp add: calls_match_workers_def start_round_def)

lemma sum_cost_update:
  "i < length ws \<Longrightarrow> sum_list (map cost (ws[i := x])) + cost (ws ! i) = sum_list (map cost ws) + cost x"
proof (induction ws arbitrary: i)
  case Nil then show ?case by simp
next
  case (Cons a ws)
  then show ?case by (cases i) auto
qed

lemma potential_start_call [simp]: "potential (start_call style ow s) = potential s"
  by (simp add: potential_def)

lemma potential_settle_call [simp]: "potential (settle_call fetch c s) = potential s"
  by (simp add: potential_def)

lemma worker_step_potential_less:
  assumes inv: "calls_match_workers s"
    and inb: "i < length (workers s)" and ne: "workers s ! i \<noteq> Exited"
  shows "potential (round_step fetch (Step i) s) < potential s"
proof (cases "workers s ! i")
  case Exited
  with ne show ?thesis by simp
next
  case AtLoopHead
  show ?thesis
  proof (cases "stylesQueue s")
    case Nil
    show ?thesis
      unfolding step_exit [OF inb AtLoopHead Nil]
      using sum_cost_update [OF inb, of Exited] AtLoopHead by (simp add: potential_def)
  next
    case (Cons style rest)
    show ?thesis
    proof (cases "style = []")
      case True
      with Cons have q: "stylesQueue s = [] # rest" by simp
      show ?thesis unfolding step_skip [OF inb AtLoopHead q] using q
        by (simp add: potential_def)
    next
      case False
      show ?thesis
        unfolding step_shift [OF inb AtLoopHead Cons False]
        using sum_cost_update [OF inb, of "Awaiting style"] AtLoopHead Cons
        by (simp add: potential_def)
    qed
  qed
next
  case (Awaiting style)
  have "i \<in> set (owner_ids (open_calls s))"
    using inb Awaiting by (intro calls_match_workersD(4) [OF inv]) simp_all
  then obtain c where f: "List.find (\<lambda>c. call_owner c = Worker i) (open_calls s) = Some c"
    using find_owned by blast
  show ?thesis
    unfolding step_settle [OF inb Awaiting f]
    using sum_cost_update [OF inb, of AtLoopHead] Awaiting
    by (simp add: potential_def)
qed

lemma round_step_potential_le:
  assumes "calls_match_workers s"
  shows "potential (round_step fetch ev s) \<le> potential s"
proof (cases ev)
  case (Step j)
  show ?thesis
  proof (cases "j < length (workers s) \<and> workers s ! j \<noteq> Exited")
    case True
    then show ?thesis using worker_step_potential_less [OF assms, of j fetch] Step by simp
  next
    case False
    then show ?thesis using step_idle [of j s fetch] Step by auto
  qed
next
  case (Shake style)
  then show ?thesis using shake_calls [of fetch style s] by (simp add: potential_def)
next
  case (Settle style)
  then show ?thesis using settle_calls [of fetch style s] by (simp add: potential_def)
qed

lemma round_step_exited:
  assumes "i < length (workers s)" "workers s ! i = Exited"
  shows "workers (round_step fetch ev s) ! i = Exited"
proof (cases ev)
  case (Shake style)
  then show ?thesis using assms shake_calls [of fetch style s] by simp
next
  case (Settle style)
  then show ?thesis using assms settle_calls [of fetch style s] by simp
next
  case (Step j)
  show ?thesis
  proof (cases "j < length (workers s) \<and> workers s ! j \<noteq> Exited")
    case False
    then show ?thesis using step_idle [of j s fetch] Step assms by auto
  next
    case True
    then have inb: "j < length (workers s)" and ji: "j \<noteq> i" using assms by auto
    have upd: "\<And>x. ((workers s)[j := x]) ! i = Exited" using ji assms by simp
    show ?thesis
    proof (cases "workers s ! j")
      case Exited
      with True show ?thesis by simp
    next
      case AtLoopHead
      show ?thesis
      proof (cases "stylesQueue s")
        case Nil
        show ?thesis unfolding Step step_exit [OF inb AtLoopHead Nil] using upd by simp
      next
        case (Cons style rest)
        show ?thesis
        proof (cases "style = []")
          case True
          with Cons have q: "stylesQueue s = [] # rest" by simp
          show ?thesis unfolding Step step_skip [OF inb AtLoopHead q] using assms by simp
        next
          case False
          show ?thesis unfolding Step step_shift [OF inb AtLoopHead Cons False] using upd by simp
        qed
      qed
    next
      case (Awaiting style)
      show ?thesis
      proof (cases "List.find (\<lambda>c. call_owner c = Worker j) (open_calls s)")
        case None
        then show ?thesis using Step inb Awaiting assms by (simp add: round_step_def)
      next
        case (Some c)
        show ?thesis unfolding Step step_settle [OF inb Awaiting Some] using upd by simp
      qed
    qed
  qed
qed

lemma run_round_exited:
  "i < length (workers s) \<Longrightarrow> workers s ! i = Exited
   \<Longrightarrow> workers (run_round fetch sch s) ! i = Exited"
  unfolding run_round_def
proof (induction sch arbitrary: s)
  case Nil then show ?case by simp
next
  case (Cons ev sch)
  from Cons.prems have "workers (round_step fetch ev s) ! i = Exited" by (rule round_step_exited)
  with Cons.IH [of "round_step fetch ev s"] Cons.prems show ?case by simp
qed

lemma run_round_potential:
  "calls_match_workers s \<Longrightarrow> i < length (workers s)
   \<Longrightarrow> workers (run_round fetch sch s) ! i \<noteq> Exited
   \<Longrightarrow> potential (run_round fetch sch s) + count_list sch (Step i) \<le> potential s"
proof (induction sch arbitrary: s)
  case Nil then show ?case by (simp add: run_round_def)
next
  case (Cons ev sch)
  let ?s1 = "round_step fetch ev s"
  have rr: "run_round fetch (ev # sch) s = run_round fetch sch ?s1" by (simp add: run_round_def)
  have inv1: "calls_match_workers ?s1" using Cons.prems(1) by (rule calls_match_workers_step)
  have len: "i < length (workers ?s1)" using Cons.prems by simp
  have ne: "workers (run_round fetch sch ?s1) ! i \<noteq> Exited" using Cons.prems rr by simp
  have ih: "potential (run_round fetch sch ?s1) + count_list sch (Step i) \<le> potential ?s1"
    using Cons.IH [OF inv1 len ne] .
  show ?case
  proof (cases "ev = Step i")
    case True
    have "workers s ! i \<noteq> Exited"
    proof
      assume "workers s ! i = Exited"
      with Cons.prems(2) have "workers (run_round fetch (ev # sch) s) ! i = Exited"
        by (intro run_round_exited)
      with Cons.prems show False by simp
    qed
    with Cons.prems True have "potential ?s1 < potential s"
      using worker_step_potential_less [of s i fetch] by simp
    with ih True rr show ?thesis by simp
  next
    case False
    with ih round_step_potential_le [OF Cons.prems(1), of fetch ev] rr show ?thesis by simp
  qed
qed

lemma cost_pos: "wk \<noteq> Exited \<Longrightarrow> 0 < cost wk"
  by (cases wk) simp_all

lemma potential_pos:
  assumes "i < length (workers s)" "workers s ! i \<noteq> Exited"
  shows "0 < potential s"
proof -
  have "cost (workers s ! i) \<le> sum_list (map cost (workers s))"
  proof -
    have "cost (workers s ! i) \<in> set (map cost (workers s))" using assms(1) by simp
    then show ?thesis by (simp add: member_le_sum_list)
  qed
  with cost_pos [OF assms(2)] show ?thesis by (simp add: potential_def)
qed

lemma scheduled_enough_exits:
  assumes "calls_match_workers s" "i < length (workers s)" "potential s \<le> count_list sch (Step i)"
  shows "workers (run_round fetch sch s) ! i = Exited"
proof (rule ccontr)
  assume ne: "workers (run_round fetch sch s) ! i \<noteq> Exited"
  from run_round_potential [OF assms(1,2) ne]
  have "potential (run_round fetch sch s) + count_list sch (Step i) \<le> potential s" .
  moreover have "0 < potential (run_round fetch sch s)"
    using potential_pos [of i "run_round fetch sch s"] assms(2) ne by simp
  ultimately show False using assms(3) by simp
qed

lemma mem_update_other:
  "x \<in> set ws \<Longrightarrow> ws ! i \<noteq> x \<Longrightarrow> x \<in> set (ws[i := y])"
proof (induction ws arbitrary: i)
  case Nil then show ?case by simp
next
  case (Cons a ws)
  then show ?case by (cases i) auto
qed

lemma tracked_start_call:
  "tracked S s \<or> S = style \<Longrightarrow> tracked S (start_call style ow s)"
  by (auto simp: tracked_def)

lemma style_still_open:
  "c' \<in> set cs \<Longrightarrow> call_style c' \<noteq> call_style c \<Longrightarrow> c' \<in> set (remove1 c cs)"
  by (induction cs) auto

lemma tracked_settle_call:
  assumes "tracked S s"
  shows "tracked S (settle_call fetch c s)"
proof (cases "S = call_style c")
  case True
  then show ?thesis using settle_call_entry [of fetch c s] by (simp add: tracked_def)
next
  case False
  from assms consider "S \<in> set (stylesQueue s)"
    | c' where "c' \<in> set (open_calls s)" "call_style c' = S"
    | "is_terminal (generatedImages (sched_app s) S)"
    by (auto simp: tracked_def)
  then show ?thesis
  proof cases
    case 1
    then show ?thesis by (simp add: tracked_def)
  next
    case 2
    then have "c' \<in> set (remove1 c (open_calls s))" using False by (intro style_still_open) simp_all
    with 2 show ?thesis by (auto simp: tracked_def)
  next
    case 3
    then show ?thesis using settle_call_frame [OF False, of fetch s] by (simp add: tracked_def)
  qed
qed

lemma tracked_workers_update:
  "tracked S (s\<lparr>workers := ws\<rparr>) = tracked S s"
  by (simp add: tracked_def)

lemma round_step_tracked:
  assumes "S \<noteq> []" "tracked S s"
  shows "tracked S (round_step fetch ev s)"
proof (cases ev)
  case (Shake style)
  show ?thesis
  proof (cases "uploadedImages (sched_app s) = []
      \<or> (case generatedImages (sched_app s) style of None \<Rightarrow> False
          | Some g \<Rightarrow> status g = StatusPending)")
    case True
    then show ?thesis using assms Shake by (auto simp: round_step_def)
  next
    case False
    let ?s1 = "s\<lparr>sched_app := (sched_app s)
        \<lparr>generatedImages := (generatedImages (sched_app s))(style \<mapsto> pending_image)\<rparr>\<rparr>"
    have "tracked S ?s1 \<or> S = style" using assms(2) by (auto simp: tracked_def)
    then have "tracked S (start_call style Regeneration ?s1)" by (rule tracked_start_call)
    then show ?thesis using False Shake by (simp add: round_step_def)
  qed
next
  case (Settle style)
  then show ?thesis using assms tracked_settle_call
    by (simp add: round_step_def split: option.splits)
next
  case (Step i)
  show ?thesis
  proof (cases "i < length (workers s) \<and> workers s ! i \<noteq> Exited")
    case False
    then show ?thesis using step_idle [of i s fetch] Step assms by auto
  next
    case True
    then have inb: "i < length (workers s)" by simp
    show ?thesis
    proof (cases "workers s ! i")
      case Exited
      with True show ?thesis by simp
    next
      case AtLoopHead
      show ?thesis
      proof (cases "stylesQueue s")
        case Nil
        show ?thesis unfolding Step step_exit [OF inb AtLoopHead Nil]
          using assms(2) by (simp add: tracked_workers_update)
      next
        case (Cons style rest)
        show ?thesis
        proof (cases "style = []")
          case True
          with Cons have q: "stylesQueue s = [] # rest" by simp
          show ?thesis unfolding Step step_skip [OF inb AtLoopHead q]
            using assms q by (auto simp: tracked_def)
        next
          case False
          have "tracked S (s\<lparr>stylesQueue := rest, workers := (workers s)[i := Awaiting style]\<rparr>)
              \<or> S = style"
            using assms(2) Cons by (auto simp: tracked_def)
          then show ?thesis unfolding Step step_shift [OF inb AtLoopHead Cons False]
            by (rule tracked_start_call)
        qed
      qed
    next
      case (Awaiting style)
      show ?thesis
      proof (cases "List.find (\<lambda>c. call_owner c = Worker i) (open_calls s)")
        case None
        then show ?thesis using Step inb Awaiting assms by (simp add: round_step_def)
      next
        case (Some c)
        show ?thesis unfolding Step step_settle [OF inb Awaiting Some]
          using assms(2) by (simp add: tracked_workers_update tracked_settle_call)
      qed
    qed
  qed
qed

lemma run_round_tracked:
  "S \<noteq> [] \<Longrightarrow> tracked S s \<Longrightarrow> tracked S (run_round fetch sch s)"
  unfolding run_round_def
  by (induction sch arbitrary: s) (simp_all add: round_step_tracked)

lemma round_step_queue_drained:
  assumes "queue_drained s"
  shows "queue_drained (round_step fetch ev s)"
proof (cases ev)
  case (Shake style)
  then show ?thesis using assms shake_calls [of fetch style s] by (simp add: queue_drained_def)
next
  case (Settle style)
  then show ?thesis using assms settle_calls [of fetch style s] by (simp add: queue_drained_def)
next
  case (Step i)
  show ?thesis
  proof (cases "i < length (workers s) \<and> workers s ! i \<noteq> Exited")
    case False
    then show ?thesis using step_idle [of i s fetch] Step assms by auto
  next
    case True
    then have inb: "i < length (workers s)" by simp
    show ?thesis
    proof (cases "workers s ! i")
      case Exited
      with True show ?thesis by simp
    next
      case AtLoopHead
      show ?thesis
      proof (cases "stylesQueue s")
        case Nil
        show ?thesis unfolding Step step_exit [OF inb AtLoopHead Nil]
          using Nil by (simp add: queue_drained_def)
      next
        case (Cons style rest)
        then have noex: "Exited \<notin> set (workers s)" using assms by (auto simp: queue_drained_def)
        have noex': "Exited \<notin> set ((workers s)[i := Awaiting style])"
          using noex by (auto dest!: set_update_subset_insert [THEN subsetD])
        show ?thesis
        proof (cases "style = []")
          case True
          with Cons have q: "stylesQueue s = [] # rest" by simp
          show ?thesis unfolding Step step_skip [OF inb AtLoopHead q]
            using noex by (simp add: queue_drained_def)
        next
          case False
          show ?thesis unfolding Step step_shift [OF inb AtLoopHead Cons False]
            using noex' by (simp add: queue_drained_def)
        qed
      qed
    next
      case (Awaiting style)
      have sub: "Exited \<in> set ((workers s)[i := AtLoopHead]) \<Longrightarrow> Exited \<in> set (workers s)"
        by (auto dest!: set_update_subset_insert [THEN subsetD])
      show ?thesis
      proof (cases "List.find (\<lambda>c. call_owner c = Worker i) (open_calls s)")
        case None
        then show ?thesis using Step inb Awaiting assms by (simp add: round_step_def)
      next
        case (Some c)
        show ?thesis unfolding Step step_settle [OF inb Awaiting Some]
          using assms sub by (auto simp: queue_drained_def)
      qed
    qed
  qed
qed

lemma run_round_queue_drained:
  "queue_drained s \<Longrightarrow> queue_drained (run_round fetch sch s)"
  unfolding run_round_def
  by (induction sch arbitrary: s) (simp_all add: round_step_queue_drained)

text \<open>Without a Shake no regeneration call is ever open.\<close>

lemma remove1_all: "list_all P cs \<Longrightarrow> list_all P (remove1 c cs)"
  by (induction cs) auto

lemma round_step_no_regeneration:
  assumes "\<not> is_shake ev" "list_all (\<lambda>c. call_owner c \<noteq> Regeneration) (open_calls s)"
  shows "list_all (\<lambda>c. call_owner c \<noteq> Regeneration) (open_calls (round_step fetch ev s))"
proof (cases ev)
  case (Shake style)
  with assms show ?thesis by simp
next
  case (Settle style)
  then show ?thesis using assms
    by (simp add: round_step_def remove1_all split: option.splits)
next
  case (Step i)
  then show ?thesis using assms
    by (simp add: round_step_def remove1_all split: worker.splits list.splits option.splits)
qed

lemma run_round_no_regeneration:
  "no_regeneration sch \<Longrightarrow> list_all (\<lambda>c. call_owner c \<noteq> Regeneration) (open_calls s)
   \<Longrightarrow> list_all (\<lambda>c. call_owner c \<noteq> Regeneration) (open_calls (run_round fetch sch s))"
  unfolding run_round_def no_regeneration_def
  by (induction sch arbitrary: s) (simp_all add: round_step_no_regeneration)

lemma no_regeneration_in_flight:
  assumes "list_all (\<lambda>c. call_owner c \<noteq> Regeneration) (open_calls s)"
  shows "in_flight s = scheduler_in_flight s" and "\<not> regenerating S s"
proof -
  have "filter (\<lambda>c. call_owner c \<noteq> Regeneration) (open_calls s) = open_calls s"
    using assms by (simp add: list_all_iff)
  then show "in_flight s = scheduler_in_flight s"
    by (simp add: in_flight_def scheduler_in_flight_def)
  show "\<not> regenerating S s"
    using assms by (auto simp: regenerating_def list_all_iff list_ex_iff)
qed

lemma potential_start: "potential (start_round a w) = 14"
  by (simp add: potential_def start_round_def STYLES_def concurrencyLimit_def numeral_2_eq_2)

lemma start_round_tracked: "S \<in> set STYLES \<Longrightarrow> tracked S (start_round a w)"
  by (simp add: tracked_def start_round_def)

lemma start_round_queue_drained: "queue_drained (start_round a w)"
  by (simp add: queue_drained_def start_round_def)

lemma start_round_workers: "length (workers (start_round a w)) = 2"
  by (simp add: start_round_def concurrencyLimit_def)

lemma STYLES_nonempty: "S \<in> set STYLES \<Longrightarrow> S \<noteq> []"
  by (auto simp: STYLES_def)

lemma settled_tracked:
  assumes "settled s" "workers s \<noteq> []" "calls_match_workers s" "queue_drained s" "tracked S s"
  shows "is_terminal (generatedImages (sched_app s) S) \<or> regenerating S s"
proof -
  from assms(1) have all: "\<And>wk. wk \<in> set (workers s) \<Longrightarrow> wk = Exited"
    by (simp add: settled_def list_all_iff)
  from assms(2) obtain wk where "wk \<in> set (workers s)" by (cases "workers s") auto
  with all have "Exited \<in> set (workers s)" by auto
  with assms(4) have q: "stylesQueue s = []" by (simp add: queue_drained_def)
  have none: "owner_ids (open_calls s) = []"
  proof (rule ccontr)
    assume "owner_ids (open_calls s) \<noteq> []"
    then obtain i where i: "i \<in> set (owner_ids (open_calls s))"
      by (cases "owner_ids (open_calls s)") auto
    from calls_match_workersD(2) [OF assms(3) i] calls_match_workersD(3) [OF assms(3) i]
    have "i < length (workers s)" "is_awaiting (workers s ! i)" by simp_all
    moreover from this(1) have "workers s ! i = Exited" by (intro all) simp
    ultimately show False by simp
  qed
  show ?thesis
  proof (cases "is_terminal (generatedImages (sched_app s) S)")
    case True
    then show ?thesis by simp
  next
    case False
    with assms(5) q obtain c where c: "c \<in> set (open_calls s)" "call_style c = S"
      by (auto simp: tracked_def)
    from owner_ids_Nil [OF none c(1)] c show ?thesis
      by (auto simp: regenerating_def list_ex_iff)
  qed
qed

lemma settled_run:
  assumes "settled (run_round fetch sch (start_round a w))"
  shows "list_all (\<lambda>S. is_terminal (generatedImages
            (sched_app (run_round fetch sch (start_round a w))) S)
          \<or> regenerating S (run_round fetch sch (start_round a w))) STYLES"
  unfolding list_all_iff
proof
  fix S assume S: "S \<in> set STYLES"
  let ?s = "run_round fetch sch (start_round a w)"
  have "workers ?s \<noteq> []"
    using run_round_length [of fetch sch "start_round a w"] start_round_workers [of a w]
    by (auto simp del: run_round_length)
  then show "is_terminal (generatedImages (sched_app ?s) S) \<or> regenerating S ?s"
    using assms S
    by (intro settled_tracked calls_match_workers_run calls_match_workers_start
        run_round_queue_drained run_round_tracked start_round_tracked
        start_round_queue_drained STYLES_nonempty)
qed

lemma run_no_regeneration:
  assumes "no_regeneration sch"
  shows "in_flight (run_round fetch sch (start_round a w))
       = scheduler_in_flight (run_round fetch sch (start_round a w))"
    and "\<not> regenerating S (run_round fetch sch (start_round a w))"
proof -
  have "list_all (\<lambda>c. call_owner c \<noteq> Regeneration)
      (open_calls (run_round fetch sch (start_round a w)))"
    using assms by (intro run_round_no_regeneration) (simp_all add: start_round_def)
  then show "in_flight (run_round fetch sch (start_round a w))
       = scheduler_in_flight (run_round fetch sch (start_round a w))"
    and "\<not> regenerating S (run_round fetch sch (start_round a w))"
    by (rule no_regeneration_in_flight)+
qed


lemma enough_steps_settle:
  assumes "14 \<le> count_list sch (Step 0)" "14 \<le> count_list sch (Step 1)"
  shows "settled (run_round fetch sch (start_round a w))
     \<and> stylesQueue (run_round fetch sch (start_round a w)) = []
     \<and> scheduler_in_flight (run_round fetch sch (start_round a w)) = 0"
proof -
  let ?s = "run_round fetch sch (start_round a w)"
  have len: "length (workers ?s) = 2" by (simp add: start_round_workers)
  have e0: "workers ?s ! 0 = Exited"
    using assms(1) start_round_workers [of a w]
    by (intro scheduled_enough_exits calls_match_workers_start) (simp_all add: potential_start)
  have e1: "workers ?s ! 1 = Exited"
    using assms(2) start_round_workers [of a w]
    by (intro scheduled_enough_exits calls_match_workers_start) (simp_all add: potential_start)
  from len obtain x y where xy: "workers ?s = [x, y]"
    by (cases "workers ?s"; cases "tl (workers ?s)") (auto simp: numeral_2_eq_2)
  with e0 e1 have ws: "workers ?s = [Exited, Exited]" by simp
  then have st: "settled ?s" by (simp add: settled_def)
  have "queue_drained ?s" by (intro run_round_queue_drained start_round_queue_drained)
  with ws have q: "stylesQueue ?s = []" by (simp add: queue_drained_def)
  have inv: "calls_match_workers ?s"
    by (intro calls_match_workers_run calls_match_workers_start)
  have "owner_ids (open_calls ?s) = []"
  proof (rule ccontr)
    assume "owner_ids (open_calls ?s) \<noteq> []"
    then obtain i where i: "i \<in> set (owner_ids (open_calls ?s))"
      by (cases "owner_ids (open_calls ?s)") auto
    from calls_match_workersD(2) [OF inv i] calls_match_workersD(3) [OF inv i]
    have lt: "i < length (workers ?s)" and aw: "is_awaiting (workers ?s ! i)" by simp_all
    from lt len have "i = 0 \<or> i = 1" by auto
    with aw ws show False by auto
  qed
  then have fl: "scheduler_in_flight ?s = 0"
    by (simp add: scheduler_in_flight_def owned_count)
  from st q fl show ?thesis by simp
qed

lemma round_robin_counts:
  "count_list round_robin (Step 0) = 14 \<and> count_list round_robin (Step 1) = 14
   \<and> no_regeneration round_robin"
  by code_simp

lemma initialImages_pending: "list_all (\<lambda>S. initialImages S = Some pending_image) STYLES"
  by (simp add: initialImages_def STYLES_def)

lemma start_round_not_settled: "\<not> settled (start_round a w)"
  by (simp add: settled_def start_round_def concurrencyLimit_def numeral_2_eq_2)

text \<open>A regeneration requested and settled with nothing else in between is
  \<open>handleRegenerateStyle\<close> run from the request to the settled call.\<close>

lemma regenerate_two_phase:
  assumes "open_calls s = []"
  shows "(let s' = round_step fetch (Settle style) (round_step fetch (Shake style) s)
          in (sched_app s', sched_world s'))
     = handleRegenerateStyle (generateStyleImage_service fetch) style (sched_app s, sched_world s)"
proof (cases "uploadedImages (sched_app s) = []
      \<or> (case generatedImages (sched_app s) style of None \<Rightarrow> False
          | Some g \<Rightarrow> status g = StatusPending)")
  case True
  then have "round_step fetch (Shake style) s = s" by (auto simp: round_step_def)
  moreover have "round_step fetch (Settle style) s = s" using assms by (simp add: round_step_def)
  ultimately show ?thesis using True by (auto simp: handleRegenerateStyle_def Let_def)
next
  case False
  let ?a1 = "(sched_app s)
      \<lparr>generatedImages := (generatedImages (sched_app s))(style \<mapsto> pending_image)\<rparr>"
  obtain t w1 where b: "service_begin (uploadedImages ?a1) (style_prompt style) (sched_world s)
      = (t, w1)"
    by (cases "service_begin (uploadedImages ?a1) (style_prompt style) (sched_world s)") simp
  let ?c = "\<lparr>call_style = style, call_ticket = t, call_owner = Regeneration\<rparr>"
  have sh: "round_step fetch (Shake style) s
      = s\<lparr>sched_app := ?a1, sched_world := w1, open_calls := [?c]\<rparr>"
    using False b assms by (simp add: round_step_def start_call_def)
  have two: "processStyle_settle fetch style t (?a1, w1)
      = processStyle (generateStyleImage_service fetch) style (?a1, sched_world s)"
    using processStyle_two_phase [where a = ?a1 and style = style and w = "sched_world s"
        and fetch = fetch] b by simp
  have "(let s' = round_step fetch (Settle style) (round_step fetch (Shake style) s)
          in (sched_app s', sched_world s'))
      = processStyle_settle fetch style t (?a1, w1)"
    unfolding sh
    by (simp add: round_step_def settle_call_def Let_def split: prod.splits)
  then show ?thesis using False two by (simp add: handleRegenerateStyle_def)
qed

text \<open>Evaluation of rounds for the sample application state when the network is
  down.\<close>

lemma a0_begin:
  "service_begin [''data:image/png;base64,AAAA''] (style_prompt style) w
     = (Sent \<lparr>req_method = POST, req_images = [''data:image/png;base64,AAAA''],
               req_prompt = style_prompt style\<rparr>,
        w\<lparr>fetches := fetches w @ [\<lparr>req_method = POST,
                                     req_images = [''data:image/png;base64,AAAA''],
                                     req_prompt = style_prompt style\<rparr>]\<rparr>)"
  using style_prompt_not_blank [of style]
  by (simp add: service_begin_def Let_def)

lemma friendly_offline: "friendly_error (JsError ''Failed to fetch'') = JsError NETWORK_ERROR_MESSAGE"
  by code_simp

lemma offline_settle:
  "service_settle offline_fetch (Sent req) w = (Inl (JsError NETWORK_ERROR_MESSAGE), w)"
  by (simp add: service_settle_def offline_fetch_def friendly_offline)

lemmas round_eval = run_round_def round_step_def start_call_def settle_call_def
  processStyle_settle_def settle_entry_def start_round_def initialImages_def STYLES_def
  concurrencyLimit_def a0_def w0_def a0_begin offline_settle pending_image_def
  in_flight_def settled_def handleGenerateClick_def Let_def numeral_2_eq_2




text \<open>
  C4, as amended. When images are uploaded, right after \<open>handleGenerateClick\<close> has
  started the round (no event has run) every style of the catalogue is mapped to the
  pending entry. In every round that has settled (every worker has left its loop, which
  happens only with an empty queue) the application shows the results, and every style
  of the catalogue is mapped to a done or failed entry unless a regeneration of that
  style is still in flight; when no regeneration is requested during the round, every
  style is mapped to a done or failed entry.
\<close>

theorem round_pending_then_terminal:
  "uploadedImages a \<noteq> [] \<Longrightarrow>
     list_all (\<lambda>S. generatedImages (fst (handleGenerateClick fetch [] (a, w))) S = Some pending_image)
       STYLES
     \<and> (settled (run_round fetch sch (start_round a w)) \<longrightarrow>
          appState (fst (handleGenerateClick fetch sch (a, w))) = ResultsShown
          \<and> list_all (\<lambda>S. is_terminal (generatedImages (fst (handleGenerateClick fetch sch (a, w))) S)
                    \<or> regenerating S (run_round fetch sch (start_round a w))) STYLES
          \<and> (no_regeneration sch \<longrightarrow>
               list_all (\<lambda>S. is_terminal
                   (generatedImages (fst (handleGenerateClick fetch sch (a, w))) S)) STYLES))"
proof (intro conjI impI)
  assume up: "uploadedImages a \<noteq> []"
  have "handleGenerateClick fetch [] (a, w) = (sched_app (start_round a w), w)"
    using up start_round_not_settled [of a w]
    by (simp add: handleGenerateClick_def run_round_def Let_def) (simp add: start_round_def)
  then show "list_all (\<lambda>S. generatedImages (fst (handleGenerateClick fetch [] (a, w))) S
      = Some pending_image) STYLES"
    using initialImages_pending by (simp add: start_round_def)
  assume st: "settled (run_round fetch sch (start_round a w))"
  let ?s = "run_round fetch sch (start_round a w)"
  have h: "handleGenerateClick fetch sch (a, w)
      = ((sched_app ?s)\<lparr>isLoading := False, appState := ResultsShown\<rparr>, sched_world ?s)"
    using up st by (simp add: handleGenerateClick_def Let_def)
  show "appState (fst (handleGenerateClick fetch sch (a, w))) = ResultsShown"
    by (simp add: h)
  show either: "list_all (\<lambda>S. is_terminal (generatedImages (fst (handleGenerateClick fetch sch (a, w))) S)
      \<or> regenerating S ?s) STYLES"
    using settled_run [OF st] by (simp add: h)
  assume "no_regeneration sch"
  then have "\<And>S. \<not> regenerating S ?s" by (rule run_no_regeneration(2))
  with either
  show "list_all (\<lambda>S. is_terminal (generatedImages (fst (handleGenerateClick fetch sch (a, w))) S))
      STYLES"
    by simp
qed

theorem round_pending_then_terminal_witness:
  "uploadedImages a0 \<noteq> [] \<and> no_regeneration round_robin
   \<and> settled (run_round offline_fetch round_robin (start_round a0 w0))
   \<and> list_all (\<lambda>S. generatedImages (fst (handleGenerateClick offline_fetch [] (a0, w0))) S
        = Some pending_image) STYLES
   \<and> appState (fst (handleGenerateClick offline_fetch round_robin (a0, w0))) = ResultsShown
   \<and> list_all (\<lambda>S. is_terminal (generatedImages
        (fst (handleGenerateClick offline_fetch round_robin (a0, w0))) S)) STYLES"
proof -
  have u: "uploadedImages a0 \<noteq> []" by (simp add: a0_def)
  have s: "settled (run_round offline_fetch round_robin (start_round a0 w0))"
    using enough_steps_settle [of round_robin offline_fetch a0 w0] round_robin_counts by simp
  from round_pending_then_terminal [OF u, of offline_fetch w0 round_robin] u s round_robin_counts
  show ?thesis by simp
qed

text \<open>
  The claim as first stated fails: Modern is shaken once its task has settled and its
  regeneration has not settled when both workers have left their loops; the round has
  settled, the queue is empty and Modern is pending.
\<close>

theorem round_pending_counterexample:
  "settled (run_round offline_fetch shaken_round_schedule (start_round a0 w0))
   \<and> stylesQueue (run_round offline_fetch shaken_round_schedule (start_round a0 w0)) = []
   \<and> map_option status (generatedImages
        (fst (handleGenerateClick offline_fetch shaken_round_schedule (a0, w0))) ''Modern'')
      = Some StatusPending"
  by (simp add: round_eval shaken_round_schedule_def round_robin_def eval_nat_numeral)


section \<open>Regeneration\<close>

text \<open>
  C9. \<open>handleRegenerateStyle\<close> for a style whose entry is pending returns the
  application state and the world as they were: no entry changes, no request is sent
  and no upstream call is issued.
\<close>

theorem regenerate_pending_is_noop:
  "generatedImages a style = Some g \<Longrightarrow> status g = StatusPending
   \<Longrightarrow> handleRegenerateStyle svc style (a, w) = (a, w)"
  by (simp add: handleRegenerateStyle_def)

theorem regenerate_pending_is_noop_witness:
  "generatedImages a_pending ''Modern'' = Some pending_image
   \<and> status pending_image = StatusPending
   \<and> handleRegenerateStyle refusing_service ''Modern'' (a_pending, w0) = (a_pending, w0)"
proof -
  have g: "generatedImages a_pending ''Modern'' = Some pending_image"
    by (simp add: a_pending_def)
  have p: "status pending_image = StatusPending" by (simp add: pending_image_def)
  from regenerate_pending_is_noop [OF g p, of refusing_service w0] g p show ?thesis by simp
qed

end
